theory Spec2Isabelle
  imports Main "HOL-Library.Sublist"
begin

section \<open>The project tree\<close>

text \<open>
  The command-line script works on the directory tree below \<open>projectRoot\<close>
  (\<open>process.cwd()\<close>). A path is the list of its components relative to that root, so
  \<open>path.join(projectRoot, 'config/keep-alive-config.ts')\<close> is
  \<open>[''config'', ''keep-alive-config.ts'']\<close>, \<open>path.dirname\<close> is \<open>butlast\<close> and the root
  itself is \<open>[]\<close>. A tree is a finite table from paths to nodes, read through \<open>map_of\<close>.
\<close>

type_synonym path = "string list"

datatype node = File string | Dir

type_synonym tree = "(path \<times> node) list"

definition node_at :: "tree \<Rightarrow> path \<Rightarrow> node option" where
  "node_at t p = map_of t p"

definition put :: "tree \<Rightarrow> path \<Rightarrow> node \<Rightarrow> tree" where
  "put t p n = (p, n) # filter (\<lambda>e. fst e \<noteq> p) t"

definition dirname :: "path \<Rightarrow> path" where
  "dirname p = butlast p"

text \<open>
  A tree of a real file system is well formed: every entry lies below the root and its
  parent is a directory.
\<close>

definition wf_tree :: "tree \<Rightarrow> bool" where
  "wf_tree t = (\<forall>e \<in> set t. fst e \<noteq> [] \<and>
     (dirname (fst e) = [] \<or> node_at t (dirname (fst e)) = Some Dir))"

section \<open>Errors and the environment of a run\<close>

text \<open>
  A JavaScript error object, as far as the script looks at it: \<open>err.code\<close> (absent on a
  plain \<open>new Error(...)\<close>) and \<open>err.message\<close>.
\<close>

datatype js_error = JsError (code: "string option") (message: string)

definition sys_error :: "string \<Rightarrow> js_error" where
  "sys_error c = JsError (Some c) c"

datatype fs_call = EnsureDir path | Copy string path | Remove path | Readdir path

record package_json =
  dependencies :: "string list"
  devDependencies :: "string list"

text \<open>
  What a run takes from outside the script:
  \<^item> \<open>templates\<close>: the files shipped in \<open>templatesDir\<close>, by name;
  \<^item> \<open>faults\<close>: the calls that the operating system refuses (permissions, I/O), with
    the error each raises; a refused call leaves the tree as it was;
  \<^item> \<open>already_exists\<close>: the error object the copy library raises under
    \<open>errorOnExist\<close> for an existing destination (the library decides whether it carries
    a code);
  \<^item> \<open>process_env\<close>: the environment variables after \<open>dotenv.config()\<close>;
  \<^item> \<open>parse_json\<close>: the JSON reader applied to the text of \<open>package.json\<close>, giving the
    names with a truthy entry under \<open>dependencies\<close> and \<open>devDependencies\<close>;
  \<^item> \<open>exec\<close>: the effect of a shell command on the tree.
\<close>

record env =
  templates :: "string \<Rightarrow> string option"
  faults :: "fs_call \<Rightarrow> js_error option"
  already_exists :: "path \<Rightarrow> js_error"
  process_env :: "string \<Rightarrow> string option"
  parse_json :: "string \<Rightarrow> js_error + package_json"
  exec :: "string \<Rightarrow> tree \<Rightarrow> js_error + tree"

section \<open>The file-system calls the script makes\<close>

text \<open>\<open>fs.existsSync\<close> never throws; the root always exists.\<close>

definition fs_existsSync :: "tree \<Rightarrow> path \<Rightarrow> bool" where
  "fs_existsSync t p = (p = [] \<or> node_at t p \<noteq> None)"

text \<open>
  \<open>mkdir\<close> with \<open>recursive: true\<close>, walking down from the root: missing components are
  created, a regular file in the way raises \<open>EEXIST\<close> (the last component) or
  \<open>ENOTDIR\<close> (an ancestor). In a well-formed tree nothing is missing above a file, so
  a failing call has created nothing.
\<close>

fun mkdirp :: "tree \<Rightarrow> path \<Rightarrow> path \<Rightarrow> js_error + tree" where
  "mkdirp t pre [] = Inr t"
| "mkdirp t pre (c # cs) =
     (case node_at t (pre @ [c]) of
        None \<Rightarrow> mkdirp (put t (pre @ [c]) Dir) (pre @ [c]) cs
      | Some Dir \<Rightarrow> mkdirp t (pre @ [c]) cs
      | Some (File x) \<Rightarrow> Inl (sys_error (if cs = [] then ''EEXIST'' else ''ENOTDIR'')))"

definition fs_ensureDir :: "env \<Rightarrow> path \<Rightarrow> tree \<Rightarrow> js_error + tree" where
  "fs_ensureDir env p t =
     (case faults env (EnsureDir p) of
        Some e \<Rightarrow> Inl e
      | None \<Rightarrow> mkdirp t [] p)"

record copy_options =
  overwrite :: bool
  errorOnExist :: bool

text \<open>
  \<open>fs.copy(src, dest, opts)\<close> for a template file: the source is read first
  (\<open>ENOENT\<close> when it is missing), a directory at the destination is refused, a missing
  parent directory is created, and an existing destination file is replaced under
  \<open>overwrite\<close>, reported under \<open>errorOnExist\<close>, and left alone otherwise.
\<close>

definition copyFile :: "string \<Rightarrow> path \<Rightarrow> tree \<Rightarrow> js_error + tree" where
  "copyFile body dst t =
     (if dirname dst = [] \<or> node_at t (dirname dst) = Some Dir
      then Inr (put t dst (File body))
      else Inl (sys_error ''ENOTDIR''))"

definition fs_copy :: "env \<Rightarrow> string \<Rightarrow> path \<Rightarrow> copy_options \<Rightarrow> tree \<Rightarrow> js_error + tree" where
  "fs_copy env s dst opts t =
     (case faults env (Copy s dst) of
        Some e \<Rightarrow> Inl e
      | None \<Rightarrow>
         (case templates env s of
            None \<Rightarrow> Inl (sys_error ''ENOENT'')
          | Some body \<Rightarrow>
             if node_at t dst = Some Dir
             then Inl (JsError None ''Cannot overwrite directory with non-directory'')
             else
               (case (if fs_existsSync t (dirname dst) then Inr t else mkdirp t [] (dirname dst)) of
                  Inl e \<Rightarrow> Inl e
                | Inr t1 \<Rightarrow>
                   (case node_at t dst of
                      None \<Rightarrow> copyFile body dst t1
                    | Some n \<Rightarrow>
                       if overwrite opts then copyFile body dst t1
                       else if errorOnExist opts then Inl (already_exists env dst)
                       else Inr t1))))"

text \<open>\<open>fs.remove\<close> is \<open>rm -rf\<close>: the path and everything below it go; a missing path is no error.\<close>

definition rm_tree :: "path \<Rightarrow> tree \<Rightarrow> tree" where
  "rm_tree p t = filter (\<lambda>e. \<not> prefix p (fst e)) t"

definition fs_remove :: "env \<Rightarrow> path \<Rightarrow> tree \<Rightarrow> js_error + tree" where
  "fs_remove env p t =
     (case faults env (Remove p) of
        Some e \<Rightarrow> Inl e
      | None \<Rightarrow> Inr (rm_tree p t))"

text \<open>\<open>fs.readdir\<close>: the names directly below a directory; a regular file raises \<open>ENOTDIR\<close>.\<close>

definition children :: "tree \<Rightarrow> path \<Rightarrow> string list" where
  "children t p = remdups (map (\<lambda>e. last (fst e)) (filter (\<lambda>e. fst e \<noteq> [] \<and> dirname (fst e) = p) t))"

definition fs_readdir :: "env \<Rightarrow> path \<Rightarrow> tree \<Rightarrow> js_error + string list" where
  "fs_readdir env p t =
     (case faults env (Readdir p) of
        Some e \<Rightarrow> Inl e
      | None \<Rightarrow>
         (case (if p = [] then Some Dir else node_at t p) of
            None \<Rightarrow> Inl (sys_error ''ENOENT'')
          | Some (File x) \<Rightarrow> Inl (sys_error ''ENOTDIR'')
          | Some Dir \<Rightarrow> Inr (children t p)))"

text \<open>\<open>fs.readJsonSync\<close>: read the file, then parse it.\<close>

definition fs_readJsonSync :: "env \<Rightarrow> path \<Rightarrow> tree \<Rightarrow> js_error + package_json" where
  "fs_readJsonSync env p t =
     (case node_at t p of
        None \<Rightarrow> Inl (sys_error ''ENOENT'')
      | Some Dir \<Rightarrow> Inl (sys_error ''EISDIR'')
      | Some (File body) \<Rightarrow> parse_json env body)"

section \<open>Statements, exceptions and the console\<close>

text \<open>
  Each \<open>console\<close> line that tells an outcome is an event, carrying what the line
  interpolates: \<open>Created\<close> the entry's \<open>msg\<close>, \<open>SkippedExisting\<close> its \<open>dest\<close>,
  \<open>CopyFailed\<close> its \<open>src\<close> and the error's message, \<open>ClientElsewhere\<close> the alternate
  path found, \<open>DepsInstalling\<close> the package manager, \<open>Deleted\<close>, \<open>NotFound\<close>,
  \<open>DeleteFailed\<close> and \<open>RemovedDir\<close> the path, \<open>Unexpected\<close> the error the entry point
  prints. The banner lines that every run prints are left out.
\<close>

datatype event =
    EnvFound
  | EnvWarning
  | Created string
  | SkippedExisting path
  | CopyFailed string string
  | ClientFound
  | ClientElsewhere path
  | ClientCreated
  | ClientFailed string
  | DepsInstalling string
  | DepsInstalled
  | DepsFailed
  | Deleted path
  | NotFound path
  | DeleteFailed path string
  | RemovedDir path
  | Unexpected js_error

record world =
  tree :: tree
  console :: "event list"

text \<open>
  A statement runs in a world and either completes with a value or throws; the world it
  leaves behind is kept in both cases, as the effects made before a \<open>throw\<close> are.
\<close>

type_synonym 'a io = "world \<Rightarrow> (js_error + 'a) \<times> world"

definition io_return :: "'a \<Rightarrow> 'a io" where
  "io_return x = (\<lambda>w. (Inr x, w))"

definition io_bind :: "'a io \<Rightarrow> ('a \<Rightarrow> 'b io) \<Rightarrow> 'b io" where
  "io_bind m f = (\<lambda>w. case m w of (Inl e, w') \<Rightarrow> (Inl e, w') | (Inr x, w') \<Rightarrow> f x w')"

definition try_catch :: "'a io \<Rightarrow> (js_error \<Rightarrow> 'a io) \<Rightarrow> 'a io" where
  "try_catch m h = (\<lambda>w. case m w of (Inl e, w') \<Rightarrow> h e w' | (Inr x, w') \<Rightarrow> (Inr x, w'))"

fun for_of :: "'x list \<Rightarrow> ('x \<Rightarrow> unit io) \<Rightarrow> unit io" where
  "for_of [] body = io_return ()"
| "for_of (x # xs) body = io_bind (body x) (\<lambda>_. for_of xs body)"

definition console_log :: "event \<Rightarrow> unit io" where
  "console_log ev = (\<lambda>w. (Inr (), w\<lparr>console := console w @ [ev]\<rparr>))"

text \<open>
  An awaited call of the file-system library as a statement: one that changes the tree,
  one that returns a value, and a test that cannot throw.
\<close>

definition fs_write :: "(tree \<Rightarrow> js_error + tree) \<Rightarrow> unit io" where
  "fs_write f = (\<lambda>w. case f (tree w) of Inl e \<Rightarrow> (Inl e, w) | Inr t' \<Rightarrow> (Inr (), w\<lparr>tree := t'\<rparr>))"

definition fs_read :: "(tree \<Rightarrow> js_error + 'a) \<Rightarrow> 'a io" where
  "fs_read f = (\<lambda>w. case f (tree w) of Inl e \<Rightarrow> (Inl e, w) | Inr x \<Rightarrow> (Inr x, w))"

definition fs_test :: "(tree \<Rightarrow> bool) \<Rightarrow> bool io" where
  "fs_test f = (\<lambda>w. (Inr (f (tree w)), w))"

section \<open>The script\<close>

text \<open>
  The functions of the script keep their names. The blocks of \<open>init\<close> and \<open>uninstall\<close>
  are named after what they do: \<open>check_environment\<close> (step 1 of \<open>init\<close>), \<open>copy_entry\<close>
  and \<open>copy_files\<close> (the body and the loop of step 2), \<open>delete_entry\<close> and
  \<open>delete_files\<close> (the loop over \<open>filesToDelete\<close>), \<open>clean_dir\<close> and \<open>clean_dirs\<close> (the
  loop over \<open>dirsToClean\<close>), and \<open>main\<close> (the dispatch on \<open>process.argv\<close> at the end of
  the file).
\<close>

record manifest_entry =
  src :: string
  dest :: path
  msg :: string

definition filesToCopy :: "manifest_entry list" where
  "filesToCopy =
    [\<lparr>src = ''route.ts'', dest = [''app'', ''api'', ''keep-alive'', ''route.ts''],
      msg = ''Created API route at app/api/keep-alive/route.ts''\<rparr>,
     \<lparr>src = ''keepAliveUtils.ts'', dest = [''app'', ''api'', ''keep-alive'', ''keepAliveUtils.ts''],
      msg = ''Created utils at app/api/keep-alive/keepAliveUtils.ts''\<rparr>,
     \<lparr>src = ''keep-alive-config.ts'', dest = [''config'', ''keep-alive-config.ts''],
      msg = ''Created config at config/keep-alive-config.ts''\<rparr>,
     \<lparr>src = ''keep-alive.sql'', dest = [''keep-alive.sql''],
      msg = ''Created SQL script at keep-alive.sql''\<rparr>,
     \<lparr>src = ''vercel.json'', dest = [''vercel.json''],
      msg = ''Created vercel.json at vercel.json''\<rparr>]"

definition detectPackageManager :: "tree \<Rightarrow> string" where
  "detectPackageManager t =
     (if fs_existsSync t [''pnpm-lock.yaml''] then ''pnpm''
      else if fs_existsSync t [''yarn.lock''] then ''yarn''
      else ''npm'')"

fun join_with :: "string \<Rightarrow> string list \<Rightarrow> string" where
  "join_with sep [] = []"
| "join_with sep [x] = x"
| "join_with sep (x # y # ys) = x @ sep @ join_with sep (y # ys)"

definition requiredDeps :: "string list" where
  "requiredDeps = [''@supabase/supabase-js'']"

definition installDependencies :: "env \<Rightarrow> unit io" where
  "installDependencies env =
     io_bind (fs_test (\<lambda>t. fs_existsSync t [''package.json''])) (\<lambda>found.
       if \<not> found then io_return ()
       else
         io_bind (fs_read (fs_readJsonSync env [''package.json''])) (\<lambda>packageJson.
           let missingDeps =
                 filter (\<lambda>dep. dep \<notin> set (dependencies packageJson) \<and>
                               dep \<notin> set (devDependencies packageJson)) requiredDeps
           in if length missingDeps > 0
              then
                io_bind (fs_read (\<lambda>t. Inr (detectPackageManager t))) (\<lambda>pm.
                io_bind (console_log (DepsInstalling pm)) (\<lambda>_.
                  try_catch
                    (let installCmd = (if pm = ''npm'' then ''install'' else ''add'')
                     in io_bind
                          (fs_write (exec env (pm @ '' '' @ installCmd @ '' '' @ join_with '' '' missingDeps)))
                          (\<lambda>_. console_log DepsInstalled))
                    (\<lambda>error. console_log DepsFailed)))
              else io_return ()))"

definition client_target :: path where
  "client_target = [''lib'', ''supabase'', ''server.ts'']"

definition commonPaths :: "path list" where
  "commonPaths =
     [[''utils'', ''supabase'', ''server.ts''],
      [''lib'', ''supabase'', ''client.ts''],
      [''utils'', ''supabase'', ''client.ts'']]"

text \<open>The second \<open>fs.copy\<close> passes no options: \<open>overwrite\<close> defaults to true.\<close>

definition default_options :: copy_options where
  "default_options = \<lparr>overwrite = True, errorOnExist = False\<rparr>"

definition checkAndCreateSupabaseClient :: "env \<Rightarrow> unit io" where
  "checkAndCreateSupabaseClient env =
     io_bind (fs_test (\<lambda>t. fs_existsSync t client_target)) (\<lambda>found.
       if found then console_log ClientFound
       else
         io_bind
           (for_of commonPaths (\<lambda>p.
              io_bind (fs_test (\<lambda>t. fs_existsSync t p)) (\<lambda>there.
                if there then console_log (ClientElsewhere p) else io_return ())))
           (\<lambda>_.
              try_catch
                (io_bind (fs_write (fs_ensureDir env (dirname client_target))) (\<lambda>_.
                 io_bind (fs_write (fs_copy env ''supabase-server.ts'' client_target default_options)) (\<lambda>_.
                 console_log ClientCreated)))
                (\<lambda>err. console_log (ClientFailed (message err)))))"

definition truthy :: "string option \<Rightarrow> bool" where
  "truthy v = (case v of None \<Rightarrow> False | Some s \<Rightarrow> s \<noteq> [])"

definition check_environment :: "env \<Rightarrow> unit io" where
  "check_environment env =
     (let supabaseUrl = process_env env ''NEXT_PUBLIC_SUPABASE_URL'';
          supabaseKey = process_env env ''NEXT_PUBLIC_SUPABASE_ANON_KEY''
      in if \<not> truthy supabaseUrl \<or> \<not> truthy supabaseKey
         then console_log EnvWarning
         else console_log EnvFound)"

definition copy_entry :: "env \<Rightarrow> manifest_entry \<Rightarrow> unit io" where
  "copy_entry env file =
     try_catch
       (io_bind (fs_write (fs_ensureDir env (dirname (dest file)))) (\<lambda>_.
        io_bind (fs_write (fs_copy env (src file) (dest file) \<lparr>overwrite = False, errorOnExist = True\<rparr>)) (\<lambda>_.
        console_log (Created (msg file)))))
       (\<lambda>err. if code err = Some ''EEXIST''
               then console_log (SkippedExisting (dest file))
               else console_log (CopyFailed (src file) (message err)))"

definition copy_files :: "env \<Rightarrow> unit io" where
  "copy_files env = for_of filesToCopy (copy_entry env)"

definition init :: "env \<Rightarrow> unit io" where
  "init env =
     io_bind (check_environment env) (\<lambda>_.
     io_bind (copy_files env) (\<lambda>_.
     io_bind (checkAndCreateSupabaseClient env) (\<lambda>_.
     installDependencies env)))"

definition filesToDelete :: "path list" where
  "filesToDelete =
     [[''app'', ''api'', ''keep-alive'', ''route.ts''],
      [''app'', ''api'', ''keep-alive'', ''keepAliveUtils.ts''],
      [''config'', ''keep-alive-config.ts''],
      [''keep-alive.sql''],
      [''vercel.json'']]"

definition dirsToClean :: "path list" where
  "dirsToClean = [[''app'', ''api'', ''keep-alive''], [''config'']]"

definition delete_entry :: "env \<Rightarrow> path \<Rightarrow> unit io" where
  "delete_entry env file =
     io_bind (fs_test (\<lambda>t. fs_existsSync t file)) (\<lambda>found.
       if found
       then try_catch
              (io_bind (fs_write (fs_remove env file)) (\<lambda>_. console_log (Deleted file)))
              (\<lambda>err. console_log (DeleteFailed file (message err)))
       else console_log (NotFound file))"

definition delete_files :: "env \<Rightarrow> unit io" where
  "delete_files env = for_of filesToDelete (delete_entry env)"

definition clean_dir :: "env \<Rightarrow> path \<Rightarrow> unit io" where
  "clean_dir env dir =
     io_bind (fs_test (\<lambda>t. fs_existsSync t dir)) (\<lambda>found.
       if found
       then io_bind (fs_read (fs_readdir env dir)) (\<lambda>files.
              if length files = 0
              then io_bind (fs_write (fs_remove env dir)) (\<lambda>_. console_log (RemovedDir dir))
              else io_return ())
       else io_return ())"

definition clean_dirs :: "env \<Rightarrow> unit io" where
  "clean_dirs env = for_of dirsToClean (clean_dir env)"

definition uninstall :: "env \<Rightarrow> unit io" where
  "uninstall env = io_bind (delete_files env) (\<lambda>_. clean_dirs env)"

text \<open>
  The entry point: the mode is chosen by the argument \<open>uninstall\<close>; a rejected promise is
  printed and ends the process with status 1, a fulfilled one lets it end with status 0.
\<close>

definition main :: "env \<Rightarrow> string list \<Rightarrow> world \<Rightarrow> nat \<times> world" where
  "main env args w =
     (case (if ''uninstall'' \<in> set args then uninstall env else init env) w of
        (Inl err, w') \<Rightarrow> (1, w'\<lparr>console := console w' @ [Unexpected err]\<rparr>)
      | (Inr u, w') \<Rightarrow> (0, w'))"

section \<open>The data-access module\<close>

text \<open>
  The record type of the module; an optional field (\<open>users?\<close>) is an option. The field
  \<open>id\<close> is written \<open>chatbot_id\<close>. \<open>chatbot_data\<close> is
  \<open>Omit<ChatbotType, "id" | "created_at">\<close>.
\<close>

datatype chatbot_status = active | inactive

record chatbot_data =
  user_id :: string
  org_name :: string
  users :: "int option"
  org_type :: string
  description :: string
  bot_name :: string
  greeting :: string
  tone :: string
  enable_booking :: bool
  enable_top_five :: bool
  enable_map :: bool
  top_five_items :: "string list"
  booking_link :: string
  map_embed_url :: string
  bot_slug :: string
  qr_code_url :: "string option"
  enable_form :: "bool option"
  status :: "chatbot_status option"
  last_active :: "string option"
  interactions :: "int option"

record ChatbotType = chatbot_data +
  chatbot_id :: string
  created_at :: string

text \<open>
  A request is the chain of builder calls made on the client, in order; the remote store
  answers it with \<open>{ data, error }\<close>, either of which may be \<open>null\<close>. The store is a
  parameter: a function from the request and the store's state to the answer and the
  new state.
\<close>

datatype builder_call =
    From string
  | Insert chatbot_data
  | Select
  | SelectAll
  | Eq string string
  | Order string bool
  | Single
  | Delete

datatype payload = Null | Row ChatbotType | Rows "ChatbotType list"

datatype postgrest_error = PostgrestError (pg_message: string) (pg_code: string)

record response =
  data :: payload
  error :: "postgrest_error option"

type_synonym 's client = "builder_call list \<Rightarrow> 's \<Rightarrow> response \<times> 's"

type_synonym ('s, 'a) async = "'s \<Rightarrow> (postgrest_error + 'a) \<times> 's"

definition createChatbot :: "'s client \<Rightarrow> chatbot_data \<Rightarrow> ('s, payload) async" where
  "createChatbot supabase d st =
     (case supabase [From ''chatbots'', Insert d, Select, Single] st of
        (r, st') \<Rightarrow>
          (case error r of
             Some e \<Rightarrow> (Inl e, st')
           | None \<Rightarrow> (Inr (data r), st')))"

definition getChatbotsByUserId :: "'s client \<Rightarrow> string \<Rightarrow> ('s, payload) async" where
  "getChatbotsByUserId supabase userId st =
     (case supabase [From ''chatbots'', SelectAll, Eq ''user_id'' userId, Order ''created_at'' False] st of
        (r, st') \<Rightarrow>
          (case error r of
             Some e \<Rightarrow> (Inl e, st')
           | None \<Rightarrow> (Inr (data r), st')))"

definition getChatbotBySlug :: "'s client \<Rightarrow> string \<Rightarrow> ('s, payload) async" where
  "getChatbotBySlug supabase slug st =
     (case supabase [From ''chatbots'', SelectAll, Eq ''bot_slug'' slug, Single] st of
        (r, st') \<Rightarrow>
          (case error r of
             Some e \<Rightarrow> (Inl e, st')
           | None \<Rightarrow> (Inr (data r), st')))"

definition deleteChatbot :: "'s client \<Rightarrow> string \<Rightarrow> ('s, bool) async" where
  "deleteChatbot supabase i st =
     (case supabase [From ''chatbots'', Delete, Eq ''id'' i] st of
        (r, st') \<Rightarrow>
          (case error r of
             Some e \<Rightarrow> (Inl e, st')
           | None \<Rightarrow> (Inr True, st')))"

text \<open>
  Loading the module: the two variables are read, the check throws, and only then is the
  client made (\<open>createSupabaseClient\<close>, a parameter) and are the functions exported.
\<close>

record 's exports =
  export_supabase :: "'s client"
  export_createClient :: "'s client"
  export_createChatbot :: "chatbot_data \<Rightarrow> ('s, payload) async"
  export_getChatbotsByUserId :: "string \<Rightarrow> ('s, payload) async"
  export_getChatbotBySlug :: "string \<Rightarrow> ('s, payload) async"
  export_deleteChatbot :: "string \<Rightarrow> ('s, bool) async"

definition load_module ::
  "(string \<Rightarrow> string \<Rightarrow> js_error + 's client) \<Rightarrow> (string \<Rightarrow> string option) \<Rightarrow> js_error + 's exports" where
  "load_module createSupabaseClient penv =
     (let supabaseUrl = penv ''NEXT_PUBLIC_SUPABASE_URL'';
          supabaseAnonKey = penv ''NEXT_PUBLIC_SUPABASE_ANON_KEY''
      in if \<not> truthy supabaseUrl \<or> \<not> truthy supabaseAnonKey
         then Inl (JsError None ''Missing Supabase environment variables'')
         else
           (case (supabaseUrl, supabaseAnonKey) of
              (Some url, Some k) \<Rightarrow>
                (case createSupabaseClient url k of
                   Inl e \<Rightarrow> Inl e
                 | Inr c \<Rightarrow>
                     Inr \<lparr>export_supabase = c, export_createClient = c,
                          export_createChatbot = createChatbot c,
                          export_getChatbotsByUserId = getChatbotsByUserId c,
                          export_getChatbotBySlug = getChatbotBySlug c,
                          export_deleteChatbot = deleteChatbot c\<rparr>)
            | _ \<Rightarrow> Inl (JsError None ''Missing Supabase environment variables'')))"

section \<open>Sample environments\<close>

text \<open>
  An environment in which every template is shipped, no call is refused,
  \<open>package.json\<close> declares the client library and a shell command changes nothing;
  its parameter is the error the copy library raises for an existing destination.
\<close>

definition shipped :: "string \<Rightarrow> string option" where
  "shipped = map_of
     [(''route.ts'', ''route''), (''keepAliveUtils.ts'', ''utils''),
      (''keep-alive-config.ts'', ''config''), (''keep-alive.sql'', ''sql''),
      (''vercel.json'', ''cron''), (''supabase-server.ts'', ''client'')]"

definition quiet_env :: "js_error \<Rightarrow> env" where
  "quiet_env e =
     \<lparr>templates = shipped, faults = (\<lambda>c. None), already_exists = (\<lambda>p. e),
      process_env = (\<lambda>v. None),
      parse_json = (\<lambda>s. Inr \<lparr>dependencies = [''@supabase/supabase-js''], devDependencies = []\<rparr>),
      exec = (\<lambda>c t. Inr t)\<rparr>"

definition empty_world :: world where
  "empty_world = \<lparr>tree = [], console = []\<rparr>"





definition stray_world :: world where
  "stray_world =
     \<lparr>tree = [([''app''], Dir), ([''app'', ''api''], Dir),
              ([''app'', ''api'', ''keep-alive''], File ''notes''), ([''config''], Dir)],
      console = []\<rparr>"

definition utils_world :: world where
  "utils_world =
     \<lparr>tree = [([''utils''], Dir), ([''utils'', ''supabase''], Dir),
              ([''utils'', ''supabase'', ''server.ts''], File ''theirs'')],
      console = []\<rparr>"

text \<open>
  A remote store to run the data-access functions against: it keeps its records in a
  list, gives an inserted record an identifier and a timestamp, and answers a \<open>single\<close>
  request that does not match exactly one record with an error. A \<open>delete\<close> that matches
  nothing is answered without an error.
\<close>

fun matches :: "builder_call list \<Rightarrow> ChatbotType \<Rightarrow> bool" where
  "matches [] r = True"
| "matches (Eq col v # q) r =
     ((if col = ''id'' then chatbot_id r = v
       else if col = ''user_id'' then user_id r = v
       else if col = ''bot_slug'' then bot_slug r = v
       else True) \<and> matches q r)"
| "matches (c # q) r = matches q r"

fun inserted :: "builder_call list \<Rightarrow> chatbot_data option" where
  "inserted [] = None"
| "inserted (Insert d # q) = Some d"
| "inserted (c # q) = inserted q"

definition no_rows :: postgrest_error where
  "no_rows = PostgrestError ''JSON object requested, multiple (or no) rows returned'' ''PGRST116''"

definition memory_store :: "ChatbotType list client" where
  "memory_store q rows =
     (case inserted q of
        Some d \<Rightarrow>
          (let r = chatbot_data.extend d (ChatbotType.fields (''id-'' @ bot_slug d) ''now'')
           in (\<lparr>data = Row r, error = None\<rparr>, r # rows))
      | None \<Rightarrow>
          if Delete \<in> set q
          then (\<lparr>data = Null, error = None\<rparr>, filter (\<lambda>r. \<not> matches q r) rows)
          else if Single \<in> set q
          then (case filter (matches q) rows of
                  [r] \<Rightarrow> (\<lparr>data = Row r, error = None\<rparr>, rows)
                | _ \<Rightarrow> (\<lparr>data = Null, error = Some no_rows\<rparr>, rows))
          else (\<lparr>data = Rows (filter (matches q) rows), error = None\<rparr>, rows))"

definition sample_bot :: chatbot_data where
  "sample_bot =
     \<lparr>user_id = ''u1'', org_name = ''Cafe'', users = None, org_type = ''food'',
      description = ''A cafe'', bot_name = ''Bean'', greeting = ''Hi'', tone = ''warm'',
      enable_booking = True, enable_top_five = False, enable_map = False,
      top_five_items = [], booking_link = ''https://example.org/book'', map_embed_url = [],
      bot_slug = ''bean'', qr_code_url = None, enable_form = None, status = Some active,
      last_active = None, interactions = None\<rparr>"

section \<open>Notions used in the statements and proofs\<close>

text \<open>
  A statement keeps a property of the tree when the property holds of the tree it leaves
  behind (normally or by throwing) whenever it held before. One tree extends another
  when every node of the first is a node of the second, unchanged.
\<close>

definition stable :: "(tree \<Rightarrow> bool) \<Rightarrow> 'a io \<Rightarrow> bool" where
  "stable P m = (\<forall>w. P (tree w) \<longrightarrow> P (tree (snd (m w))))"

definition ext :: "tree \<Rightarrow> tree \<Rightarrow> bool" where
  "ext t t' = (\<forall>q n. node_at t q = Some n \<longrightarrow> node_at t' q = Some n)"


definition delete_event :: "path \<Rightarrow> event \<Rightarrow> bool" where
  "delete_event p ev =
     (case ev of
        Deleted q \<Rightarrow> q = p
      | NotFound q \<Rightarrow> q = p
      | DeleteFailed q m \<Rightarrow> q = p
      | _ \<Rightarrow> False)"

text \<open>A watched path that exists, is a directory and has nothing directly below it.\<close>

definition empty_dir :: "tree \<Rightarrow> path \<Rightarrow> bool" where
  "empty_dir t d = (node_at t d = Some Dir \<and> children t d = [])"

text \<open>
  The two loops over the manifest as functions of the tree alone, for the proofs: what
  the \<open>catch\<close> of the copy loop logs for an error, what one pass of its body logs and
  leaves, the same for a list of entries, and what one pass of the delete loop logs.
  \<open>ready t d\<close> says that every directory on the way to \<open>d\<close>, and \<open>d\<close> itself, is there.
\<close>

definition report :: "manifest_entry \<Rightarrow> js_error \<Rightarrow> event" where
  "report f e = (if code e = Some ''EEXIST'' then SkippedExisting (dest f)
                 else CopyFailed (src f) (message e))"

definition entry_step :: "env \<Rightarrow> manifest_entry \<Rightarrow> tree \<Rightarrow> event \<times> tree" where
  "entry_step env f t =
     (case fs_ensureDir env (dirname (dest f)) t of
        Inl e \<Rightarrow> (report f e, t)
      | Inr t1 \<Rightarrow>
         (case fs_copy env (src f) (dest f) \<lparr>overwrite = False, errorOnExist = True\<rparr> t1 of
            Inl e \<Rightarrow> (report f e, t1)
          | Inr t2 \<Rightarrow> (Created (msg f), t2)))"

fun run_entries :: "env \<Rightarrow> manifest_entry list \<Rightarrow> tree \<Rightarrow> event list \<times> tree" where
  "run_entries env [] t = ([], t)"
| "run_entries env (f # fs) t =
     (case entry_step env f t of
        (e, t1) \<Rightarrow> (case run_entries env fs t1 of (es, t2) \<Rightarrow> (e # es, t2)))"


definition ready :: "tree \<Rightarrow> path \<Rightarrow> bool" where
  "ready t d = (\<forall>q. q \<noteq> [] \<and> prefix q d \<longrightarrow> node_at t q = Some Dir)"

section \<open>What the calls and the statements keep\<close>

lemma map_of_filter_fst:
  "map_of (filter (\<lambda>e. P (fst e)) t) q = (if P q then map_of t q else None)"
  by (induction t) auto

lemma node_at_put: "node_at (put t p n) q = (if q = p then Some n else node_at t q)"
  using map_of_filter_fst [of "\<lambda>k. k \<noteq> p" t q] by (simp add: node_at_def put_def)

lemma node_at_rm:
  "node_at (filter (\<lambda>e. \<not> prefix p (fst e)) t) q = (if prefix p q then None else node_at t q)"
  using map_of_filter_fst [of "\<lambda>k. \<not> prefix p k" t q] by (simp add: node_at_def)

lemma stable_return: "stable P (io_return x)"
  by (simp add: stable_def io_return_def)

lemma stable_log: "stable P (console_log ev)"
  by (simp add: stable_def console_log_def)

lemma stable_test: "stable P (fs_test f)"
  by (simp add: stable_def fs_test_def)

lemma stable_read: "stable P (fs_read f)"
  by (simp add: stable_def fs_read_def split: sum.splits)

lemma stable_write:
  "(\<And>t t'. P t \<Longrightarrow> f t = Inr t' \<Longrightarrow> P t') \<Longrightarrow> stable P (fs_write f)"
  by (auto simp: stable_def fs_write_def split: sum.splits)

lemma stable_bind:
  "stable P m \<Longrightarrow> (\<And>x. stable P (f x)) \<Longrightarrow> stable P (io_bind m f)"
  unfolding stable_def io_bind_def
  by (auto split: prod.splits sum.splits)

lemma stable_try:
  "stable P m \<Longrightarrow> (\<And>e. stable P (h e)) \<Longrightarrow> stable P (try_catch m h)"
  unfolding stable_def try_catch_def
  by (auto split: prod.splits sum.splits)

lemma stable_for: "(\<And>x. x \<in> set xs \<Longrightarrow> stable P (body x)) \<Longrightarrow> stable P (for_of xs body)"
  by (induction xs) (auto intro: stable_return stable_bind)

lemma stable_if: "stable P a \<Longrightarrow> stable P b \<Longrightarrow> stable P (if c then a else b)"
  by simp

lemma mkdirp_keeps:
  "mkdirp t pre cs = Inr t' \<Longrightarrow> node_at t q = Some n \<Longrightarrow> node_at t' q = Some n"
proof (induction cs arbitrary: t pre)
  case Nil
  then show ?case by simp
next
  case (Cons c cs)
  show ?case
  proof (cases "node_at t (pre @ [c])")
    case None
    with Cons.prems have "mkdirp (put t (pre @ [c]) Dir) (pre @ [c]) cs = Inr t'" by simp
    moreover from None Cons.prems have "node_at (put t (pre @ [c]) Dir) q = Some n"
      by (auto simp: node_at_put)
    ultimately show ?thesis by (rule Cons.IH)
  next
    case (Some k)
    with Cons.prems show ?thesis
      by (cases k) (auto intro: Cons.IH)
  qed
qed

lemma ensureDir_keeps:
  "fs_ensureDir env p t = Inr t' \<Longrightarrow> node_at t q = Some n \<Longrightarrow> node_at t' q = Some n"
  by (auto simp: fs_ensureDir_def split: option.splits intro: mkdirp_keeps)

lemma copyFile_keeps:
  "copyFile body dst t = Inr t' \<Longrightarrow> node_at t q = Some n \<Longrightarrow> q \<noteq> dst \<Longrightarrow> node_at t' q = Some n"
  by (auto simp: copyFile_def node_at_put split: if_splits)

lemma copy_keeps:
  assumes "fs_copy env s dst opts t = Inr t'" and "node_at t q = Some n"
    and "\<not> overwrite opts \<or> node_at t dst = None"
  shows "node_at t' q = Some n"
proof -
  from assms(1) obtain body t1 where
    t1: "(if fs_existsSync t (dirname dst) then Inr t else mkdirp t [] (dirname dst)) = Inr t1"
    and fin: "(case node_at t dst of None \<Rightarrow> copyFile body dst t1
               | Some k \<Rightarrow> if overwrite opts then copyFile body dst t1
                           else if errorOnExist opts then Inl (already_exists env dst) else Inr t1) = Inr t'"
    by (auto simp: fs_copy_def split: option.splits if_splits sum.splits)
  from t1 assms(2) have q1: "node_at t1 q = Some n"
    by (auto split: if_splits intro: mkdirp_keeps)
  show ?thesis
  proof (cases "node_at t dst")
    case None
    with assms(2) have "q \<noteq> dst" by auto
    with fin None q1 show ?thesis by (auto intro: copyFile_keeps)
  next
    case (Some k)
    with assms(3) have "\<not> overwrite opts" by simp
    with fin Some q1 show ?thesis by (auto split: if_splits)
  qed
qed

lemma copy_entry_keeps: "stable (\<lambda>t. node_at t q = Some n) (copy_entry env f)"
  unfolding copy_entry_def
  by (intro stable_try stable_bind stable_write stable_log stable_if)
     (auto intro: ensureDir_keeps copy_keeps)

lemma copy_files_keeps: "stable (\<lambda>t. node_at t q = Some n) (copy_files env)"
  unfolding copy_files_def by (intro stable_for copy_entry_keeps)

lemma check_environment_keeps: "stable P (check_environment env)"
  unfolding check_environment_def Let_def by (intro stable_if stable_log)

lemma mkdirp_only_prefixes:
  "mkdirp t pre cs = Inr t' \<Longrightarrow> \<not> prefix q (pre @ cs) \<Longrightarrow> node_at t' q = node_at t q"
proof (induction cs arbitrary: t pre)
  case Nil
  then show ?case by simp
next
  case (Cons c cs)
  from Cons.prems(2) have np: "\<not> prefix q ((pre @ [c]) @ cs)" by simp
  then have ne: "q \<noteq> pre @ [c]" by auto
  show ?case
  proof (cases "node_at t (pre @ [c])")
    case None
    with Cons.prems have "mkdirp (put t (pre @ [c]) Dir) (pre @ [c]) cs = Inr t'" by simp
    from Cons.IH [OF this np] ne show ?thesis by (simp add: node_at_put)
  next
    case (Some k)
    with Cons.prems np show ?thesis
      by (cases k) (auto dest: Cons.IH)
  qed
qed

lemma warnings_run:
  "for_of ps (\<lambda>p. io_bind (fs_test (\<lambda>t. fs_existsSync t p)) (\<lambda>there.
       if there then console_log (ClientElsewhere p) else io_return ())) w =
   (Inr (), w\<lparr>console := console w @ map ClientElsewhere (filter (fs_existsSync (tree w)) ps)\<rparr>)"
  by (induction ps arbitrary: w)
     (simp_all add: io_return_def io_bind_def fs_test_def console_log_def)

lemma client_run:
  "checkAndCreateSupabaseClient env w =
    (if fs_existsSync (tree w) client_target
     then (Inr (), w\<lparr>console := console w @ [ClientFound]\<rparr>)
     else
       (case fs_ensureDir env (dirname client_target) (tree w) of
          Inl e \<Rightarrow> (Inr (), w\<lparr>console := console w @
                      map ClientElsewhere (filter (fs_existsSync (tree w)) commonPaths) @
                      [ClientFailed (message e)]\<rparr>)
        | Inr t1 \<Rightarrow>
           (case fs_copy env ''supabase-server.ts'' client_target default_options t1 of
              Inl e \<Rightarrow> (Inr (), w\<lparr>tree := t1, console := console w @
                      map ClientElsewhere (filter (fs_existsSync (tree w)) commonPaths) @
                      [ClientFailed (message e)]\<rparr>)
            | Inr t2 \<Rightarrow> (Inr (), w\<lparr>tree := t2, console := console w @
                      map ClientElsewhere (filter (fs_existsSync (tree w)) commonPaths) @
                      [ClientCreated]\<rparr>))))"
  unfolding checkAndCreateSupabaseClient_def warnings_run
  by (simp add: io_bind_def [abs_def] fs_test_def try_catch_def fs_write_def console_log_def
           split: sum.splits)

lemma client_target_fresh:
  assumes "fs_ensureDir env (dirname client_target) t = Inr t1"
  shows "node_at t1 client_target = node_at t client_target"
proof -
  from assms have "mkdirp t [] (dirname client_target) = Inr t1"
    by (simp add: fs_ensureDir_def split: option.splits)
  moreover have "\<not> prefix client_target ([] @ dirname client_target)"
    by (simp add: client_target_def dirname_def)
  ultimately show ?thesis by (rule mkdirp_only_prefixes)
qed

lemma client_keeps: "stable (\<lambda>t. node_at t q = Some n) (checkAndCreateSupabaseClient env)"
  unfolding stable_def
proof (intro allI impI)
  fix w :: world
  assume q: "node_at (tree w) q = Some n"
  show "node_at (tree (snd (checkAndCreateSupabaseClient env w))) q = Some n"
  proof (cases "fs_existsSync (tree w) client_target")
    case True
    with q show ?thesis by (simp add: client_run)
  next
    case False
    then have absent: "node_at (tree w) client_target = None"
      by (simp add: fs_existsSync_def)
    show ?thesis
    proof (cases "fs_ensureDir env (dirname client_target) (tree w)")
      case (Inl e)
      with False q show ?thesis by (simp add: client_run)
    next
      case (Inr t1)
      from ensureDir_keeps [OF Inr q] have q1: "node_at t1 q = Some n" .
      from client_target_fresh [OF Inr] absent have a1: "node_at t1 client_target = None" by simp
      show ?thesis
      proof (cases "fs_copy env ''supabase-server.ts'' client_target default_options t1")
        case (Inl e)
        with False Inr q1 show ?thesis by (simp add: client_run)
      next
        case (Inr t2)
        from copy_keeps [OF Inr q1] a1 have "node_at t2 q = Some n" by simp
        with False \<open>fs_ensureDir env (dirname client_target) (tree w) = Inr t1\<close> Inr
        show ?thesis by (simp add: client_run)
      qed
    qed
  qed
qed

lemma install_keeps:
  assumes "\<And>c t t'. exec env c t = Inr t' \<Longrightarrow> P t \<Longrightarrow> P t'"
  shows "stable P (installDependencies env)"
  unfolding installDependencies_def Let_def
  by (intro stable_bind stable_test stable_if stable_return stable_read stable_log stable_try
        stable_write) (erule (1) assms)

lemma init_keeps:
  assumes "\<And>c t t'. exec env c t = Inr t' \<Longrightarrow> node_at t q = Some n \<Longrightarrow> node_at t' q = Some n"
  shows "stable (\<lambda>t. node_at t q = Some n) (init env)"
  unfolding init_def
  by (intro stable_bind check_environment_keeps copy_files_keeps client_keeps install_keeps)
     (erule (1) assms)

section \<open>Provisioning never overwrites\<close>

text \<open>
  Claim C1. For every manifest entry, a file that is already at the entry's destination
  before provisioning is still there afterwards with the same contents, whatever the
  template holds: after the copy loop, and after the whole of \<open>init\<close> as long as the
  package manager's command leaves that file alone.
\<close>

theorem provision_keeps_existing_file:
  assumes "f \<in> set filesToCopy" and "node_at (tree w) (dest f) = Some (File c)"
  shows "node_at (tree (snd (copy_files env w))) (dest f) = Some (File c) \<and>
         ((\<forall>cmd t t'. exec env cmd t = Inr t' \<longrightarrow> node_at t (dest f) = Some (File c)
               \<longrightarrow> node_at t' (dest f) = Some (File c))
          \<longrightarrow> node_at (tree (snd (init env w))) (dest f) = Some (File c))"
proof (intro conjI impI)
  from copy_files_keeps [of "dest f" "File c" env] assms(2)
  show "node_at (tree (snd (copy_files env w))) (dest f) = Some (File c)"
    by (simp add: stable_def)
next
  assume "\<forall>cmd t t'. exec env cmd t = Inr t' \<longrightarrow> node_at t (dest f) = Some (File c)
               \<longrightarrow> node_at t' (dest f) = Some (File c)"
  then have "stable (\<lambda>t. node_at t (dest f) = Some (File c)) (init env)"
    by (intro init_keeps) blast
  with assms(2) show "node_at (tree (snd (init env w))) (dest f) = Some (File c)"
    by (simp add: stable_def)
qed

theorem provision_keeps_existing_file_witness:
  "node_at (tree (snd (copy_files (quiet_env (JsError None ''already exists''))
      \<lparr>tree = [([''vercel.json''], File ''mine'')], console = []\<rparr>))) [''vercel.json'']
     = Some (File ''mine'') \<and>
   node_at (tree (snd (init (quiet_env (JsError None ''already exists''))
      \<lparr>tree = [([''vercel.json''], File ''mine'')], console = []\<rparr>))) [''vercel.json'']
     = Some (File ''mine'')"
  using provision_keeps_existing_file
    [of "\<lparr>src = ''vercel.json'', dest = [''vercel.json''], msg = ''Created vercel.json at vercel.json''\<rparr>"
        "\<lparr>tree = [([''vercel.json''], File ''mine'')], console = []\<rparr>" "''mine''"
        "quiet_env (JsError None ''already exists'')"]
  by (simp add: filesToCopy_def node_at_def quiet_env_def)

section \<open>Failures of single entries\<close>

lemma copy_entry_run:
  "copy_entry env f w =
    (case fs_ensureDir env (dirname (dest f)) (tree w) of
       Inl e \<Rightarrow> (Inr (), w\<lparr>console := console w @ [report f e]\<rparr>)
     | Inr t1 \<Rightarrow>
        (case fs_copy env (src f) (dest f) \<lparr>overwrite = False, errorOnExist = True\<rparr> t1 of
           Inl e \<Rightarrow> (Inr (), w\<lparr>tree := t1, console := console w @ [report f e]\<rparr>)
         | Inr t2 \<Rightarrow> (Inr (), w\<lparr>tree := t2, console := console w @ [Created (msg f)]\<rparr>)))"
  by (simp add: copy_entry_def report_def io_bind_def try_catch_def fs_write_def console_log_def
           split: sum.splits)

lemma delete_entry_run:
  "delete_entry env p w =
    (if fs_existsSync (tree w) p
     then (case fs_remove env p (tree w) of
             Inl e \<Rightarrow> (Inr (), w\<lparr>console := console w @ [DeleteFailed p (message e)]\<rparr>)
           | Inr t' \<Rightarrow> (Inr (), w\<lparr>tree := t', console := console w @ [Deleted p]\<rparr>))
     else (Inr (), w\<lparr>console := console w @ [NotFound p]\<rparr>))"
  by (simp add: delete_entry_def io_bind_def try_catch_def fs_write_def fs_test_def console_log_def
           split: sum.splits)

lemma clean_dir_run:
  "clean_dir env d w =
    (if fs_existsSync (tree w) d
     then (case fs_readdir env d (tree w) of
             Inl e \<Rightarrow> (Inl e, w)
           | Inr files \<Rightarrow>
               if files = []
               then (case fs_remove env d (tree w) of
                       Inl e \<Rightarrow> (Inl e, w)
                     | Inr t' \<Rightarrow> (Inr (), w\<lparr>tree := t', console := console w @ [RemovedDir d]\<rparr>))
               else (Inr (), w))
     else (Inr (), w))"
  by (simp add: clean_dir_def io_bind_def fs_read_def fs_write_def fs_test_def console_log_def
        io_return_def split: sum.splits)

lemma for_of_logs:
  assumes "\<And>x w. x \<in> set xs \<Longrightarrow> \<exists>t' ev. body x w = (Inr (), w\<lparr>tree := t', console := console w @ [ev]\<rparr>) \<and> R x ev"
  shows "\<exists>t' evs. for_of xs body w = (Inr (), w\<lparr>tree := t', console := console w @ evs\<rparr>) \<and> list_all2 R xs evs"
  using assms
proof (induction xs arbitrary: w)
  case Nil
  have "for_of [] body w = (Inr (), w\<lparr>tree := tree w, console := console w @ []\<rparr>)"
    by (simp add: io_return_def)
  then show ?case by blast
next
  case (Cons x xs)
  from Cons.prems [of x w] obtain t1 ev where
    b: "body x w = (Inr (), w\<lparr>tree := t1, console := console w @ [ev]\<rparr>)" and r: "R x ev"
    by auto
  from Cons.IH [of "w\<lparr>tree := t1, console := console w @ [ev]\<rparr>"] Cons.prems
  obtain t2 evs where
    l: "for_of xs body (w\<lparr>tree := t1, console := console w @ [ev]\<rparr>) =
          (Inr (), w\<lparr>tree := t2, console := console w @ ev # evs\<rparr>)" and rs: "list_all2 R xs evs"
    by auto
  from b l have "for_of (x # xs) body w = (Inr (), w\<lparr>tree := t2, console := console w @ (ev # evs)\<rparr>)"
    by (simp add: io_bind_def)
  with r rs show ?case by blast
qed


lemma delete_entry_logs:
  "\<exists>t' ev. delete_entry env p w = (Inr (), w\<lparr>tree := t', console := console w @ [ev]\<rparr>) \<and> delete_event p ev"
proof (cases "fs_existsSync (tree w) p")
  case False
  then have "delete_entry env p w = (Inr (), w\<lparr>tree := tree w, console := console w @ [NotFound p]\<rparr>)"
    by (simp add: delete_entry_run)
  moreover have "delete_event p (NotFound p)" by (simp add: delete_event_def)
  ultimately show ?thesis by blast
next
  case True
  show ?thesis
  proof (cases "fs_remove env p (tree w)")
    case (Inl e)
    with True have "delete_entry env p w =
        (Inr (), w\<lparr>tree := tree w, console := console w @ [DeleteFailed p (message e)]\<rparr>)"
      by (simp add: delete_entry_run)
    moreover have "delete_event p (DeleteFailed p (message e))" by (simp add: delete_event_def)
    ultimately show ?thesis by blast
  next
    case (Inr t')
    with True have "delete_entry env p w = (Inr (), w\<lparr>tree := t', console := console w @ [Deleted p]\<rparr>)"
      by (simp add: delete_entry_run)
    moreover have "delete_event p (Deleted p)" by (simp add: delete_event_def)
    ultimately show ?thesis by blast
  qed
qed


lemma delete_files_logs:
  "\<exists>t' evs. delete_files env w = (Inr (), w\<lparr>tree := t', console := console w @ evs\<rparr>) \<and>
      list_all2 delete_event filesToDelete evs"
  unfolding delete_files_def by (rule for_of_logs) (rule delete_entry_logs)












section \<open>Decommissioning\<close>

lemma remove_keeps:
  "fs_remove env p t = Inr t' \<Longrightarrow> \<not> prefix p q \<Longrightarrow> node_at t' q = node_at t q"
  by (auto simp: fs_remove_def rm_tree_def node_at_rm split: option.splits)

lemma delete_entry_frame:
  "\<not> prefix p q \<Longrightarrow> stable (\<lambda>t. node_at t q = v) (delete_entry env p)"
  unfolding delete_entry_def
  by (intro stable_bind stable_test stable_if stable_try stable_write stable_log)
     (simp add: remove_keeps)

lemma clean_dir_frame:
  "\<not> prefix d q \<Longrightarrow> stable (\<lambda>t. node_at t q = v) (clean_dir env d)"
  unfolding clean_dir_def
  by (intro stable_bind stable_test stable_if stable_read stable_write stable_log stable_return)
     (simp add: remove_keeps)

lemma uninstall_frame:
  assumes "\<forall>p \<in> set filesToDelete. \<not> prefix p q" and "\<forall>d \<in> set dirsToClean. \<not> prefix d q"
  shows "stable (\<lambda>t. node_at t q = v) (uninstall env)"
  unfolding uninstall_def delete_files_def clean_dirs_def
  using assms by (intro stable_bind stable_for delete_entry_frame clean_dir_frame) auto

text \<open>
  Claim C6. \<open>lib/supabase/server.ts\<close> is not among the paths \<open>uninstall\<close> deletes, and no
  deleted path or watched directory lies above it: from every starting tree, and under
  every environment, the node at that path is the same after \<open>uninstall\<close> as before.
\<close>

theorem uninstall_keeps_client_module:
  "client_target \<notin> set filesToDelete \<and>
   node_at (tree (snd (uninstall env w))) client_target = node_at (tree w) client_target \<and>
   node_at (tree (snd (main env (''uninstall'' # args) w))) client_target = node_at (tree w) client_target"
proof -
  have "stable (\<lambda>t. node_at t client_target = node_at (tree w) client_target) (uninstall env)"
    by (rule uninstall_frame) (simp_all add: filesToDelete_def dirsToClean_def client_target_def)
  then have u: "node_at (tree (snd (uninstall env w))) client_target = node_at (tree w) client_target"
    by (simp add: stable_def)
  have "tree (snd (main env (''uninstall'' # args) w)) = tree (snd (uninstall env w))"
    by (simp add: main_def split: prod.splits sum.splits)
  with u show ?thesis by (simp add: filesToDelete_def client_target_def)
qed

theorem uninstall_keeps_client_module_witness:
  "node_at (tree (snd (uninstall (quiet_env (JsError None ''already exists''))
       (snd (init (quiet_env (JsError None ''already exists'')) empty_world))))) client_target
     = Some (File ''client'')"
proof -
  have "node_at (tree (snd (init (quiet_env (JsError None ''already exists'')) empty_world))) client_target
     = Some (File ''client'')"
    by code_simp
  with uninstall_keeps_client_module
    [of "quiet_env (JsError None ''already exists'')"
        "snd (init (quiet_env (JsError None ''already exists'')) empty_world)"]
  show ?thesis by simp
qed






lemma node_at_rm_tree: "node_at (rm_tree p t) q = (if prefix p q then None else node_at t q)"
  by (simp add: rm_tree_def node_at_rm)

lemma apart_prefix:
  assumes "a \<noteq> []" "b \<noteq> []" "hd a \<noteq> hd b" "prefix b q"
  shows "\<not> prefix a q"
proof
  assume "prefix a q"
  with assms(1) have "hd q = hd a" by (auto simp: prefix_def)
  moreover from assms(2,4) have "hd q = hd b" by (auto simp: prefix_def)
  ultimately show False using assms(3) by simp
qed

lemma children_rm_tree:
  assumes "a \<noteq> []" "b \<noteq> []" "hd a \<noteq> hd b"
  shows "children (rm_tree a t) b = children t b"
proof -
  have "filter (\<lambda>e. fst e \<noteq> [] \<and> dirname (fst e) = b) (rm_tree a t) =
        filter (\<lambda>e. fst e \<noteq> [] \<and> dirname (fst e) = b) t"
    unfolding rm_tree_def filter_filter
  proof (rule filter_cong [OF refl])
    fix e assume "e \<in> set t"
    show "(\<not> prefix a (fst e) \<and> fst e \<noteq> [] \<and> dirname (fst e) = b) =
          (fst e \<noteq> [] \<and> dirname (fst e) = b)"
    proof (cases "fst e \<noteq> [] \<and> dirname (fst e) = b")
      case True
      then have "fst e = b @ [last (fst e)]"
        using append_butlast_last_id [of "fst e"] by (simp add: dirname_def)
      then have "prefix b (fst e)" by (metis prefixI)
      from apart_prefix [OF assms this] True show ?thesis by simp
    next
      case False
      then show ?thesis by auto
    qed
  qed
  then show ?thesis by (simp add: children_def)
qed

lemma clean_dir_spec:
  assumes "d \<noteq> []"
  shows "(clean_dir env d w = (Inr (), w\<lparr>tree := rm_tree d (tree w), console := console w @ [RemovedDir d]\<rparr>)
            \<and> empty_dir (tree w) d) \<or>
         (tree (snd (clean_dir env d w)) = tree w \<and>
            (fst (clean_dir env d w) = Inr () \<longrightarrow> \<not> empty_dir (tree w) d))"
  using assms
  by (auto simp: clean_dir_run fs_existsSync_def fs_readdir_def fs_remove_def empty_dir_def rm_tree_def
           split: option.splits node.splits sum.splits)

lemma clean_two:
  "for_of [a, b] (clean_dir env) w =
     (case clean_dir env a w of
        (Inl e, w') \<Rightarrow> (Inl e, w')
      | (Inr u, w') \<Rightarrow> clean_dir env b w')"
  by (simp add: io_bind_def io_return_def split: prod.splits sum.splits)

lemma clean_pair:
  assumes a: "a \<noteq> []" and b: "b \<noteq> []" and ab: "hd a \<noteq> hd b" and d: "d = a \<or> d = b"
  shows "(\<not> empty_dir (tree w) d \<longrightarrow>
            (\<forall>q. prefix d q \<longrightarrow> node_at (tree (snd (for_of [a, b] (clean_dir env) w))) q = node_at (tree w) q)) \<and>
         (fst (for_of [a, b] (clean_dir env) w) = Inr () \<longrightarrow> empty_dir (tree w) d \<longrightarrow>
            \<not> fs_existsSync (tree (snd (for_of [a, b] (clean_dir env) w))) d)"
proof -
  note for_of.simps [simp del]
  have ba: "hd b \<noteq> hd a" using ab by simp
  consider
    (removed) "clean_dir env a w = (Inr (), w\<lparr>tree := rm_tree a (tree w), console := console w @ [RemovedDir a]\<rparr>)"
        "empty_dir (tree w) a"
  | (kept) "tree (snd (clean_dir env a w)) = tree w" "fst (clean_dir env a w) = Inr () \<longrightarrow> \<not> empty_dir (tree w) a"
    using clean_dir_spec [OF a, of env w] by blast
  then show ?thesis
  proof cases
    case removed
    define w1 where "w1 = w\<lparr>tree := rm_tree a (tree w), console := console w @ [RemovedDir a]\<rparr>"
    have loop: "for_of [a, b] (clean_dir env) w = clean_dir env b w1"
      by (simp add: clean_two removed w1_def)
    have t1: "tree w1 = rm_tree a (tree w)" by (simp add: w1_def)
    have eb: "empty_dir (tree w1) b = empty_dir (tree w) b"
      using apart_prefix [OF a b ab, of b]
      by (simp add: empty_dir_def t1 node_at_rm_tree children_rm_tree [OF a b ab])
    consider
      (removed2) "clean_dir env b w1 = (Inr (), w1\<lparr>tree := rm_tree b (tree w1), console := console w1 @ [RemovedDir b]\<rparr>)"
          "empty_dir (tree w1) b"
    | (kept2) "tree (snd (clean_dir env b w1)) = tree w1" "fst (clean_dir env b w1) = Inr () \<longrightarrow> \<not> empty_dir (tree w1) b"
      using clean_dir_spec [OF b, of env w1] by blast
    then show ?thesis
    proof cases
      case removed2
      then have fin: "tree (snd (for_of [a, b] (clean_dir env) w)) = rm_tree b (rm_tree a (tree w))"
        by (simp add: loop t1)
      from d show ?thesis
      proof
        assume "d = a"
        with removed(2) a show ?thesis
          by (simp add: fin node_at_rm_tree fs_existsSync_def)
      next
        assume "d = b"
        with removed2(2) eb b show ?thesis
          by (simp add: fin node_at_rm_tree fs_existsSync_def)
      qed
    next
      case kept2
      then have fin: "tree (snd (for_of [a, b] (clean_dir env) w)) = rm_tree a (tree w)"
        by (simp add: loop t1)
      from d show ?thesis
      proof
        assume "d = a"
        with removed(2) a show ?thesis
          by (simp add: fin node_at_rm_tree fs_existsSync_def)
      next
        assume "d = b"
        have "fst (for_of [a, b] (clean_dir env) w) = fst (clean_dir env b w1)"
          by (simp add: loop)
        with kept2(2) eb \<open>d = b\<close> show ?thesis
          using apart_prefix [OF a b ab]
          by (auto simp: fin node_at_rm_tree)
      qed
    qed
  next
    case kept
    show ?thesis
    proof (cases "fst (clean_dir env a w)")
      case (Inl e)
      then have "for_of [a, b] (clean_dir env) w = (Inl e, snd (clean_dir env a w))"
        by (cases "clean_dir env a w") (simp add: clean_two)
      with kept(1) show ?thesis by simp
    next
      case (Inr u)
      with kept(2) have na: "\<not> empty_dir (tree w) a" by simp
      define w1 where "w1 = snd (clean_dir env a w)"
      from Inr have loop: "for_of [a, b] (clean_dir env) w = clean_dir env b w1"
        by (cases "clean_dir env a w") (simp add: clean_two w1_def)
      from kept(1) have t1: "tree w1 = tree w" by (simp add: w1_def)
      consider
        (removed2) "clean_dir env b w1 = (Inr (), w1\<lparr>tree := rm_tree b (tree w1), console := console w1 @ [RemovedDir b]\<rparr>)"
            "empty_dir (tree w1) b"
      | (kept2) "tree (snd (clean_dir env b w1)) = tree w1" "fst (clean_dir env b w1) = Inr () \<longrightarrow> \<not> empty_dir (tree w1) b"
        using clean_dir_spec [OF b, of env w1] by blast
      then show ?thesis
      proof cases
        case removed2
        then have fin: "tree (snd (for_of [a, b] (clean_dir env) w)) = rm_tree b (tree w)"
          by (simp add: loop t1)
        from d show ?thesis
        proof
          assume "d = a"
          with na show ?thesis
            using apart_prefix [OF b a ba]
            by (auto simp: fin node_at_rm_tree)
        next
          assume "d = b"
          with removed2(2) b show ?thesis
            by (simp add: fin t1 node_at_rm_tree fs_existsSync_def)
        qed
      next
        case kept2
        then have fin: "tree (snd (for_of [a, b] (clean_dir env) w)) = tree w"
          by (simp add: loop t1)
        from d show ?thesis
        proof
          assume "d = a"
          with na show ?thesis by (simp add: fin)
        next
          assume "d = b"
          have "fst (for_of [a, b] (clean_dir env) w) = fst (clean_dir env b w1)"
            by (simp add: loop)
          with kept2(2) \<open>d = b\<close> show ?thesis by (simp add: fin t1)
        qed
      qed
    qed
  qed
qed

lemma uninstall_split:
  "uninstall env w = clean_dirs env (snd (delete_files env w))"
proof -
  obtain t1 e1 where "delete_files env w = (Inr (), w\<lparr>tree := t1, console := console w @ e1\<rparr>)"
    using delete_files_logs by blast
  then show ?thesis by (simp add: uninstall_def io_bind_def)
qed

text \<open>
  What the loop over the watched directories does: a watched path that is not an existing
  empty directory is left as it is, together with everything below it, and a watched
  directory that exists and is empty is gone whenever \<open>uninstall\<close> completes.
\<close>

lemma clean_dirs_spec:
  assumes "d \<in> set dirsToClean"
  shows "(\<not> empty_dir (tree (snd (delete_files env w))) d \<longrightarrow>
            (\<forall>q. prefix d q \<longrightarrow>
               node_at (tree (snd (uninstall env w))) q = node_at (tree (snd (delete_files env w))) q)) \<and>
         (fst (uninstall env w) = Inr () \<longrightarrow> empty_dir (tree (snd (delete_files env w))) d \<longrightarrow>
            \<not> fs_existsSync (tree (snd (uninstall env w))) d)"
proof -
  from assms have "d = [''app'', ''api'', ''keep-alive''] \<or> d = [''config'']"
    by (simp add: dirsToClean_def)
  from clean_pair [OF _ _ _ this, where env = env and w = "snd (delete_files env w)"]
  show ?thesis
    by (simp add: uninstall_split clean_dirs_def dirsToClean_def)
qed

text \<open>
  Claim C5. The loop over the watched directories calls \<open>readdir\<close> and \<open>remove\<close> outside
  any \<open>try\<close>, unlike the loop over the manifest before it: an error on one watched path
  ends the run before the later paths are looked at. With a regular file at
  \<open>app/api/keep-alive\<close> and an empty directory \<open>config\<close>, \<open>readdir\<close> throws \<open>ENOTDIR\<close>,
  \<open>uninstall\<close> passes it on, and \<open>config\<close>, which exists and is empty after the manifest
  deletions, is still there at the end.
\<close>

theorem clean_up_stops_at_first_error:
  "[''config''] \<in> set dirsToClean \<and>
   empty_dir (tree (snd (delete_files (quiet_env (JsError None ''already exists'')) stray_world))) [''config''] \<and>
   uninstall (quiet_env (JsError None ''already exists'')) stray_world =
     (Inl (sys_error ''ENOTDIR''),
      stray_world\<lparr>console :=
        [NotFound [''app'', ''api'', ''keep-alive'', ''route.ts''],
         NotFound [''app'', ''api'', ''keep-alive'', ''keepAliveUtils.ts''],
         NotFound [''config'', ''keep-alive-config.ts''],
         NotFound [''keep-alive.sql''],
         NotFound [''vercel.json'']]\<rparr>) \<and>
   empty_dir (tree (snd (uninstall (quiet_env (JsError None ''already exists'')) stray_world))) [''config'']"
  by code_simp

section \<open>Creating directories\<close>

lemma below_next:
  assumes "strict_prefix pre q" and "prefix q (pre @ c # cs)"
  shows "q = pre @ [c] \<or> (strict_prefix (pre @ [c]) q \<and> prefix q ((pre @ [c]) @ cs))"
proof -
  from assms(1) obtain r where q: "q = pre @ r" and r: "r \<noteq> []"
    by (auto simp: strict_prefix_def prefix_def)
  from assms(2) q have "prefix r (c # cs)" by simp
  with r obtain r' where r': "r = c # r'" and p: "prefix r' cs"
    by (cases r) (auto simp: prefix_Cons)
  show ?thesis
  proof (cases "r' = []")
    case True
    with q r' show ?thesis by simp
  next
    case False
    with q r' p show ?thesis by (auto simp: strict_prefix_def)
  qed
qed

lemma next_below:
  assumes "strict_prefix (pre @ [c]) q" and "prefix q ((pre @ [c]) @ cs)"
  shows "strict_prefix pre q \<and> prefix q (pre @ c # cs) \<and> q \<noteq> pre @ [c]"
  using assms by (auto simp: strict_prefix_def prefix_def)

lemma mkdirp_makes_dirs:
  "mkdirp t pre cs = Inr t' \<Longrightarrow> strict_prefix pre q \<Longrightarrow> prefix q (pre @ cs) \<Longrightarrow>
   node_at t' q = Some Dir"
proof (induction cs arbitrary: t pre)
  case Nil
  then show ?case by (auto simp: strict_prefix_def)
next
  case (Cons c cs)
  from Cons.prems(1) obtain t1 where
    m: "mkdirp t1 (pre @ [c]) cs = Inr t'" and d: "node_at t1 (pre @ [c]) = Some Dir"
    by (cases "node_at t (pre @ [c])")
       (auto simp: node_at_put split: node.splits)
  from below_next [OF Cons.prems(2,3)] show ?case
  proof
    assume "q = pre @ [c]"
    with mkdirp_keeps [OF m d] show ?thesis by simp
  next
    assume "strict_prefix (pre @ [c]) q \<and> prefix q ((pre @ [c]) @ cs)"
    then show ?thesis using Cons.IH [OF m] by blast
  qed
qed

lemma mkdirp_succeeds:
  "(\<And>q x. strict_prefix pre q \<Longrightarrow> prefix q (pre @ cs) \<Longrightarrow> node_at t q \<noteq> Some (File x)) \<Longrightarrow>
   \<exists>t'. mkdirp t pre cs = Inr t'"
proof (induction cs arbitrary: t pre)
  case Nil
  then show ?case by simp
next
  case (Cons c cs)
  have here: "\<And>x. node_at t (pre @ [c]) \<noteq> Some (File x)"
    by (rule Cons.prems) (auto simp: strict_prefix_def)
  show ?case
  proof (cases "node_at t (pre @ [c])")
    case None
    have "\<exists>t'. mkdirp (put t (pre @ [c]) Dir) (pre @ [c]) cs = Inr t'"
    proof (rule Cons.IH)
      fix q x assume a: "strict_prefix (pre @ [c]) q" "prefix q ((pre @ [c]) @ cs)"
      from next_below [OF a] Cons.prems [of q x]
      show "node_at (put t (pre @ [c]) Dir) q \<noteq> Some (File x)"
        by (simp add: node_at_put)
    qed
    with None show ?thesis by simp
  next
    case (Some k)
    with here have k: "k = Dir" by (cases k) auto
    have "\<exists>t'. mkdirp t (pre @ [c]) cs = Inr t'"
    proof (rule Cons.IH)
      fix q x assume a: "strict_prefix (pre @ [c]) q" "prefix q ((pre @ [c]) @ cs)"
      from next_below [OF a] Cons.prems [of q x]
      show "node_at t q \<noteq> Some (File x)" by simp
    qed
    with Some k show ?thesis by simp
  qed
qed

lemma mkdirp_idle:
  "(\<And>q. strict_prefix pre q \<Longrightarrow> prefix q (pre @ cs) \<Longrightarrow> node_at t q = Some Dir) \<Longrightarrow>
   mkdirp t pre cs = Inr t"
proof (induction cs arbitrary: pre)
  case Nil
  then show ?case by simp
next
  case (Cons c cs)
  have here: "node_at t (pre @ [c]) = Some Dir"
    by (rule Cons.prems) (auto simp: strict_prefix_def)
  have "mkdirp t (pre @ [c]) cs = Inr t"
  proof (rule Cons.IH)
    fix q assume a: "strict_prefix (pre @ [c]) q" "prefix q ((pre @ [c]) @ cs)"
    from next_below [OF a] Cons.prems [of q] show "node_at t q = Some Dir" by simp
  qed
  with here show ?case by simp
qed

section \<open>The client file\<close>

lemma client_dir_made:
  assumes "faults env (EnsureDir (dirname client_target)) = None"
    and "\<forall>x. node_at t [''lib''] \<noteq> Some (File x)"
    and "\<forall>x. node_at t [''lib'', ''supabase''] \<noteq> Some (File x)"
    and "node_at t client_target = None"
  shows "\<exists>t1. fs_ensureDir env (dirname client_target) t = Inr t1 \<and>
              node_at t1 (dirname client_target) = Some Dir \<and> node_at t1 client_target = None"
proof -
  have d: "dirname client_target = [''lib'', ''supabase'']"
    by (simp add: dirname_def client_target_def)
  have "\<exists>t1. mkdirp t [] [''lib'', ''supabase''] = Inr t1"
  proof (rule mkdirp_succeeds)
    fix q x assume "strict_prefix [] q" "prefix q ([] @ [''lib'', ''supabase''])"
    then have "q = [''lib''] \<or> q = [''lib'', ''supabase'']"
      by (auto simp: prefix_Cons strict_prefix_def)
    with assms(2,3) show "node_at t q \<noteq> Some (File x)" by auto
  qed
  then obtain t1 where m: "mkdirp t [] [''lib'', ''supabase''] = Inr t1" ..
  from mkdirp_makes_dirs [OF m, of "[''lib'', ''supabase'']"]
  have n: "node_at t1 [''lib'', ''supabase''] = Some Dir" by (simp add: strict_prefix_def)
  from m have "node_at t1 client_target = node_at t client_target"
    by (rule mkdirp_only_prefixes) (simp add: client_target_def)
  with assms(1,4) m n show ?thesis by (simp add: fs_ensureDir_def d)
qed

text \<open>
  Claim C8. When a node is already at \<open>lib/supabase/server.ts\<close> the step only reports it
  and changes nothing. When none is there and a client file exists at one of the
  alternate paths, the step warns about that path and still creates the file at the
  canonical path from the template (given that the template is shipped, the two calls
  are not refused, and neither \<open>lib\<close> nor \<open>lib/supabase\<close> is a regular file).
\<close>

theorem client_file_created_only_when_absent:
  "(fs_existsSync (tree w) client_target \<longrightarrow>
      checkAndCreateSupabaseClient env w = (Inr (), w\<lparr>console := console w @ [ClientFound]\<rparr>)) \<and>
   (\<not> fs_existsSync (tree w) client_target \<and> p \<in> set commonPaths \<and> fs_existsSync (tree w) p \<and>
    faults env (EnsureDir (dirname client_target)) = None \<and>
    faults env (Copy ''supabase-server.ts'' client_target) = None \<and>
    templates env ''supabase-server.ts'' = Some body \<and>
    (\<forall>x. node_at (tree w) [''lib''] \<noteq> Some (File x)) \<and>
    (\<forall>x. node_at (tree w) [''lib'', ''supabase''] \<noteq> Some (File x)) \<longrightarrow>
      ClientElsewhere p \<in> set (drop (length (console w)) (console (snd (checkAndCreateSupabaseClient env w)))) \<and>
      ClientCreated \<in> set (drop (length (console w)) (console (snd (checkAndCreateSupabaseClient env w)))) \<and>
      node_at (tree (snd (checkAndCreateSupabaseClient env w))) client_target = Some (File body))"
proof (intro conjI impI)
  assume "fs_existsSync (tree w) client_target"
  then show "checkAndCreateSupabaseClient env w = (Inr (), w\<lparr>console := console w @ [ClientFound]\<rparr>)"
    by (simp add: client_run)
next
  assume h: "\<not> fs_existsSync (tree w) client_target \<and> p \<in> set commonPaths \<and> fs_existsSync (tree w) p \<and>
    faults env (EnsureDir (dirname client_target)) = None \<and>
    faults env (Copy ''supabase-server.ts'' client_target) = None \<and>
    templates env ''supabase-server.ts'' = Some body \<and>
    (\<forall>x. node_at (tree w) [''lib''] \<noteq> Some (File x)) \<and>
    (\<forall>x. node_at (tree w) [''lib'', ''supabase''] \<noteq> Some (File x))"
  then have absent: "node_at (tree w) client_target = None" by (simp add: fs_existsSync_def)
  from h have f1: "faults env (EnsureDir (dirname client_target)) = None"
    and f2: "\<forall>x. node_at (tree w) [''lib''] \<noteq> Some (File x)"
    and f3: "\<forall>x. node_at (tree w) [''lib'', ''supabase''] \<noteq> Some (File x)"
    by simp_all
  from client_dir_made [OF f1 f2 f3 absent] obtain t1 where
    e: "fs_ensureDir env (dirname client_target) (tree w) = Inr t1"
    and dir: "node_at t1 (dirname client_target) = Some Dir"
    and fresh: "node_at t1 client_target = None"
    by blast
  from h dir fresh have c: "fs_copy env ''supabase-server.ts'' client_target default_options t1 =
      Inr (put t1 client_target (File body))"
    by (simp add: fs_copy_def copyFile_def fs_existsSync_def)
  from h e c have run: "checkAndCreateSupabaseClient env w =
      (Inr (), w\<lparr>tree := put t1 client_target (File body), console := console w @
                      map ClientElsewhere (filter (fs_existsSync (tree w)) commonPaths) @
                      [ClientCreated]\<rparr>)"
    by (simp add: client_run)
  from h show "ClientElsewhere p \<in> set (drop (length (console w)) (console (snd (checkAndCreateSupabaseClient env w))))"
    by (simp add: run)
  show "ClientCreated \<in> set (drop (length (console w)) (console (snd (checkAndCreateSupabaseClient env w))))"
    by (simp add: run)
  show "node_at (tree (snd (checkAndCreateSupabaseClient env w))) client_target = Some (File body)"
    by (simp add: run node_at_put)
qed

theorem client_file_created_only_when_absent_witness:
  "checkAndCreateSupabaseClient (quiet_env (JsError None ''already exists''))
      \<lparr>tree = [([''lib''], Dir), ([''lib'', ''supabase''], Dir),
               ([''lib'', ''supabase'', ''server.ts''], File ''mine'')], console = []\<rparr> =
     (Inr (), \<lparr>tree = [([''lib''], Dir), ([''lib'', ''supabase''], Dir),
               ([''lib'', ''supabase'', ''server.ts''], File ''mine'')], console = [ClientFound]\<rparr>) \<and>
   ClientElsewhere [''utils'', ''supabase'', ''server.ts''] \<in>
     set (console (snd (checkAndCreateSupabaseClient (quiet_env (JsError None ''already exists'')) utils_world))) \<and>
   ClientCreated \<in>
     set (console (snd (checkAndCreateSupabaseClient (quiet_env (JsError None ''already exists'')) utils_world))) \<and>
   node_at (tree (snd (checkAndCreateSupabaseClient (quiet_env (JsError None ''already exists'')) utils_world)))
     client_target = Some (File ''client'')"
  using client_file_created_only_when_absent
          [of "\<lparr>tree = [([''lib''], Dir), ([''lib'', ''supabase''], Dir),
               ([''lib'', ''supabase'', ''server.ts''], File ''mine'')], console = []\<rparr>"
              "quiet_env (JsError None ''already exists'')"]
        client_file_created_only_when_absent
          [of utils_world "quiet_env (JsError None ''already exists'')"
              "[''utils'', ''supabase'', ''server.ts'']" "''client''"]
  by (simp add: utils_world_def quiet_env_def shipped_def commonPaths_def client_target_def
        fs_existsSync_def node_at_def dirname_def)

section \<open>The data-access functions\<close>

text \<open>
  Claim C7. Each of the four functions sends one request, built from its argument as it
  is, and leaves the store in the state that request left it in. When the answer carries
  an error the function throws exactly that error; otherwise \<open>createChatbot\<close>,
  \<open>getChatbotsByUserId\<close> and \<open>getChatbotBySlug\<close> return the answer's \<open>data\<close> as it is
  and \<open>deleteChatbot\<close> returns \<open>true\<close>.
\<close>

theorem data_access_passes_errors_and_records_through:
  "(error (fst (supabase [From ''chatbots'', Insert d, Select, Single] st)) = Some e \<longrightarrow>
      createChatbot supabase d st =
        (Inl e, snd (supabase [From ''chatbots'', Insert d, Select, Single] st))) \<and>
   (error (fst (supabase [From ''chatbots'', Insert d, Select, Single] st)) = None \<longrightarrow>
      createChatbot supabase d st =
        (Inr (data (fst (supabase [From ''chatbots'', Insert d, Select, Single] st))),
         snd (supabase [From ''chatbots'', Insert d, Select, Single] st))) \<and>
   (error (fst (supabase [From ''chatbots'', SelectAll, Eq ''user_id'' u, Order ''created_at'' False] st)) = Some e \<longrightarrow>
      getChatbotsByUserId supabase u st =
        (Inl e, snd (supabase [From ''chatbots'', SelectAll, Eq ''user_id'' u, Order ''created_at'' False] st))) \<and>
   (error (fst (supabase [From ''chatbots'', SelectAll, Eq ''user_id'' u, Order ''created_at'' False] st)) = None \<longrightarrow>
      getChatbotsByUserId supabase u st =
        (Inr (data (fst (supabase [From ''chatbots'', SelectAll, Eq ''user_id'' u, Order ''created_at'' False] st))),
         snd (supabase [From ''chatbots'', SelectAll, Eq ''user_id'' u, Order ''created_at'' False] st))) \<and>
   (error (fst (supabase [From ''chatbots'', SelectAll, Eq ''bot_slug'' s, Single] st)) = Some e \<longrightarrow>
      getChatbotBySlug supabase s st =
        (Inl e, snd (supabase [From ''chatbots'', SelectAll, Eq ''bot_slug'' s, Single] st))) \<and>
   (error (fst (supabase [From ''chatbots'', SelectAll, Eq ''bot_slug'' s, Single] st)) = None \<longrightarrow>
      getChatbotBySlug supabase s st =
        (Inr (data (fst (supabase [From ''chatbots'', SelectAll, Eq ''bot_slug'' s, Single] st))),
         snd (supabase [From ''chatbots'', SelectAll, Eq ''bot_slug'' s, Single] st))) \<and>
   (error (fst (supabase [From ''chatbots'', Delete, Eq ''id'' i] st)) = Some e \<longrightarrow>
      deleteChatbot supabase i st =
        (Inl e, snd (supabase [From ''chatbots'', Delete, Eq ''id'' i] st))) \<and>
   (error (fst (supabase [From ''chatbots'', Delete, Eq ''id'' i] st)) = None \<longrightarrow>
      deleteChatbot supabase i st =
        (Inr True, snd (supabase [From ''chatbots'', Delete, Eq ''id'' i] st)))"
  by (simp add: createChatbot_def getChatbotsByUserId_def getChatbotBySlug_def deleteChatbot_def
        split: prod.splits)

theorem data_access_passes_errors_and_records_through_witness:
  "getChatbotBySlug memory_store ''bean'' [] = (Inl no_rows, []) \<and>
   getChatbotsByUserId memory_store ''u1'' [] = (Inr (Rows []), []) \<and>
   fst (createChatbot memory_store sample_bot []) =
     Inr (Row (chatbot_data.extend sample_bot (ChatbotType.fields ''id-bean'' ''now''))) \<and>
   fst (getChatbotBySlug memory_store ''bean'' (snd (createChatbot memory_store sample_bot []))) =
     Inr (Row (chatbot_data.extend sample_bot (ChatbotType.fields ''id-bean'' ''now''))) \<and>
   deleteChatbot memory_store ''id-bean'' (snd (createChatbot memory_store sample_bot [])) = (Inr True, [])"
proof -
  have a: "memory_store [From ''chatbots'', SelectAll, Eq ''bot_slug'' ''bean'', Single] [] =
             (\<lparr>data = Null, error = Some no_rows\<rparr>, [])"
    by (simp add: memory_store_def)
  have b: "memory_store [From ''chatbots'', SelectAll, Eq ''user_id'' ''u1'', Order ''created_at'' False] [] =
             (\<lparr>data = Rows [], error = None\<rparr>, [])"
    by (simp add: memory_store_def)
  have c: "memory_store [From ''chatbots'', Insert sample_bot, Select, Single] [] =
             (\<lparr>data = Row (chatbot_data.extend sample_bot (ChatbotType.fields ''id-bean'' ''now'')), error = None\<rparr>,
              [chatbot_data.extend sample_bot (ChatbotType.fields ''id-bean'' ''now'')])"
    by (simp add: memory_store_def sample_bot_def Let_def)
  have d: "memory_store [From ''chatbots'', SelectAll, Eq ''bot_slug'' ''bean'', Single]
             [chatbot_data.extend sample_bot (ChatbotType.fields ''id-bean'' ''now'')] =
             (\<lparr>data = Row (chatbot_data.extend sample_bot (ChatbotType.fields ''id-bean'' ''now'')), error = None\<rparr>,
              [chatbot_data.extend sample_bot (ChatbotType.fields ''id-bean'' ''now'')])"
    by (simp add: memory_store_def sample_bot_def chatbot_data.defs ChatbotType.defs)
  have e: "memory_store [From ''chatbots'', Delete, Eq ''id'' ''id-bean'']
             [chatbot_data.extend sample_bot (ChatbotType.fields ''id-bean'' ''now'')] =
             (\<lparr>data = Null, error = None\<rparr>, [])"
    by (simp add: memory_store_def sample_bot_def chatbot_data.defs ChatbotType.defs)
  from data_access_passes_errors_and_records_through
         [of memory_store sample_bot "[]" no_rows "''u1''" "''bean''" "''id-bean''"] a b c
  have 1: "getChatbotBySlug memory_store ''bean'' [] = (Inl no_rows, []) \<and>
   getChatbotsByUserId memory_store ''u1'' [] = (Inr (Rows []), []) \<and>
   createChatbot memory_store sample_bot [] =
     (Inr (Row (chatbot_data.extend sample_bot (ChatbotType.fields ''id-bean'' ''now''))),
      [chatbot_data.extend sample_bot (ChatbotType.fields ''id-bean'' ''now'')])"
    by simp
  from data_access_passes_errors_and_records_through
         [of memory_store sample_bot "[chatbot_data.extend sample_bot (ChatbotType.fields ''id-bean'' ''now'')]"
             no_rows "''u1''" "''bean''" "''id-bean''"] d e
  have 2: "getChatbotBySlug memory_store ''bean'' [chatbot_data.extend sample_bot (ChatbotType.fields ''id-bean'' ''now'')] =
     (Inr (Row (chatbot_data.extend sample_bot (ChatbotType.fields ''id-bean'' ''now''))),
      [chatbot_data.extend sample_bot (ChatbotType.fields ''id-bean'' ''now'')]) \<and>
    deleteChatbot memory_store ''id-bean'' [chatbot_data.extend sample_bot (ChatbotType.fields ''id-bean'' ''now'')] = (Inr True, [])"
    by simp
  from 1 2 show ?thesis by simp
qed

text \<open>
  Claim C9. \<open>deleteChatbot\<close> returns \<open>true\<close> whenever the store reports no error,
  whatever else the answer holds, and \<open>true\<close> is the only value it ever returns: a
  deletion that matched no record cannot be told from one that did.
\<close>

theorem delete_reports_success_without_error:
  "(error (fst (supabase [From ''chatbots'', Delete, Eq ''id'' i] st)) = None \<longrightarrow>
      fst (deleteChatbot supabase i st) = Inr True) \<and>
   (\<forall>b. fst (deleteChatbot supabase i st) = Inr b \<longrightarrow> b)"
  by (auto simp: deleteChatbot_def split: prod.splits option.splits)

theorem delete_reports_success_without_error_witness:
  "fst (deleteChatbot memory_store ''id-none'' []) = Inr True \<and>
   fst (deleteChatbot memory_store ''id-none'' (snd (createChatbot memory_store sample_bot []))) = Inr True \<and>
   fst (deleteChatbot memory_store ''id-bean'' (snd (createChatbot memory_store sample_bot []))) = Inr True"
proof -
  have a: "error (fst (memory_store [From ''chatbots'', Delete, Eq ''id'' i] rows)) = None" for i rows
    by (simp add: memory_store_def)
  from delete_reports_success_without_error [of memory_store "''id-none''" "[]"]
       delete_reports_success_without_error [of memory_store "''id-none''" "snd (createChatbot memory_store sample_bot [])"]
       delete_reports_success_without_error [of memory_store "''id-bean''" "snd (createChatbot memory_store sample_bot [])"]
       a
  show ?thesis by simp
qed

text \<open>
  Claim C10. Loading the module throws \<open>Missing Supabase environment variables\<close> when
  either variable is absent, so the exported functions exist only when both variables
  are set and non-empty. In \<open>init\<close> the same absence only logs a warning, and the copy
  loop and the later steps run after it.
\<close>

theorem module_load_requires_both_variables:
  "(penv ''NEXT_PUBLIC_SUPABASE_URL'' = None \<or> penv ''NEXT_PUBLIC_SUPABASE_ANON_KEY'' = None \<longrightarrow>
      load_module mk penv = Inl (JsError None ''Missing Supabase environment variables'')) \<and>
   (\<forall>ex. load_module mk penv = Inr ex \<longrightarrow>
      truthy (penv ''NEXT_PUBLIC_SUPABASE_URL'') \<and> truthy (penv ''NEXT_PUBLIC_SUPABASE_ANON_KEY'')) \<and>
   (process_env env ''NEXT_PUBLIC_SUPABASE_URL'' = None \<or>
    process_env env ''NEXT_PUBLIC_SUPABASE_ANON_KEY'' = None \<longrightarrow>
      check_environment env w = (Inr (), w\<lparr>console := console w @ [EnvWarning]\<rparr>) \<and>
      init env w =
        io_bind (copy_files env) (\<lambda>_. io_bind (checkAndCreateSupabaseClient env) (\<lambda>_.
          installDependencies env)) (w\<lparr>console := console w @ [EnvWarning]\<rparr>))"
  by (auto simp: load_module_def truthy_def check_environment_def init_def io_bind_def console_log_def
           Let_def split: option.splits sum.splits if_splits)

theorem module_load_requires_both_variables_witness:
  "load_module (\<lambda>url k. Inr memory_store) (\<lambda>v. if v = ''NEXT_PUBLIC_SUPABASE_URL'' then Some ''https://x.supabase.co'' else None)
     = Inl (JsError None ''Missing Supabase environment variables'') \<and>
   fst (init (quiet_env (JsError None ''already exists'')) empty_world) = Inr () \<and>
   hd (console (snd (init (quiet_env (JsError None ''already exists'')) empty_world))) = EnvWarning"
proof -
  have a: "fst (init (quiet_env (JsError None ''already exists'')) empty_world) = Inr ()"
    by code_simp
  have b: "hd (console (snd (init (quiet_env (JsError None ''already exists'')) empty_world))) = EnvWarning"
    by code_simp
  from module_load_requires_both_variables
    [of "\<lambda>v. if v = ''NEXT_PUBLIC_SUPABASE_URL'' then Some ''https://x.supabase.co'' else None"
        "\<lambda>url k. Inr memory_store" "quiet_env (JsError None ''already exists'')" empty_world] a b
  show ?thesis by simp
qed

section \<open>Running the copy loop twice\<close>

lemma copy_entry_step:
  "copy_entry env f w =
     (Inr (), w\<lparr>tree := snd (entry_step env f (tree w)),
               console := console w @ [fst (entry_step env f (tree w))]\<rparr>)"
  by (simp add: copy_entry_run entry_step_def split: sum.splits)

lemma copy_loop_entries:
  "for_of fs (copy_entry env) w =
     (Inr (), w\<lparr>tree := snd (run_entries env fs (tree w)),
               console := console w @ fst (run_entries env fs (tree w))\<rparr>)"
proof (induction fs arbitrary: w)
  case Nil
  show ?case by (simp add: io_return_def)
next
  case (Cons f fs)
  define w1 where "w1 = w\<lparr>tree := snd (entry_step env f (tree w)),
               console := console w @ [fst (entry_step env f (tree w))]\<rparr>"
  have step: "copy_entry env f w = (Inr (), w1)"
    by (simp add: copy_entry_step w1_def)
  have "for_of (f # fs) (copy_entry env) w = for_of fs (copy_entry env) w1"
    by (simp add: io_bind_def step)
  also have "\<dots> = (Inr (), w1\<lparr>tree := snd (run_entries env fs (tree w1)),
               console := console w1 @ fst (run_entries env fs (tree w1))\<rparr>)"
    by (rule Cons.IH)
  finally show ?case
    by (simp add: w1_def case_prod_beta)
qed

lemma ext_refl: "ext t t"
  by (simp add: ext_def)

lemma ext_trans: "ext a b \<Longrightarrow> ext b c \<Longrightarrow> ext a c"
  by (simp add: ext_def)

lemma entry_step_ext: "ext t (snd (entry_step env f t))"
  unfolding ext_def entry_step_def
  by (auto split: sum.splits dest: ensureDir_keeps intro: copy_keeps)

lemma run_entries_ext: "ext t (snd (run_entries env fs t))"
proof (induction fs arbitrary: t)
  case Nil
  show ?case by (simp add: ext_refl)
next
  case (Cons f fs)
  obtain e t1 where s: "entry_step env f t = (e, t1)" by (cases "entry_step env f t")
  obtain es t2 where r: "run_entries env fs t1 = (es, t2)" by (cases "run_entries env fs t1")
  from entry_step_ext [of t env f] s have "ext t t1" by simp
  moreover from Cons.IH [of t1] r have "ext t1 t2" by simp
  ultimately show ?case using s r by (simp add: ext_trans)
qed

lemma ready_ext: "ready t d \<Longrightarrow> ext t u \<Longrightarrow> ready u d"
  by (simp add: ready_def ext_def)

lemma ready_parent: "ready t d \<Longrightarrow> d = [] \<or> node_at t d = Some Dir"
  by (auto simp: ready_def)

lemma mkdirp_ready: "mkdirp t [] d = Inr t' \<Longrightarrow> ready t' d"
  unfolding ready_def using mkdirp_makes_dirs [of t "[]" d t'] by (auto simp: strict_prefix_def)

lemma ensure_idle:
  assumes "faults env (EnsureDir d) = None" "ready u d"
  shows "fs_ensureDir env d u = Inr u"
proof -
  have "mkdirp u [] d = Inr u"
    by (rule mkdirp_idle) (use assms(2) in \<open>auto simp: ready_def strict_prefix_def\<close>)
  with assms(1) show ?thesis by (simp add: fs_ensureDir_def)
qed

lemma copy_ready:
  assumes "ready t (dirname dst)"
  shows "fs_copy env s dst \<lparr>overwrite = False, errorOnExist = True\<rparr> t =
     (case faults env (Copy s dst) of
        Some e \<Rightarrow> Inl e
      | None \<Rightarrow>
         (case templates env s of
            None \<Rightarrow> Inl (sys_error ''ENOENT'')
          | Some body \<Rightarrow>
             (case node_at t dst of
                Some Dir \<Rightarrow> Inl (JsError None ''Cannot overwrite directory with non-directory'')
              | Some (File x) \<Rightarrow> Inl (already_exists env dst)
              | None \<Rightarrow> Inr (put t dst (File body)))))"
  using ready_parent [OF assms]
  by (auto simp: fs_copy_def copyFile_def fs_existsSync_def split: option.splits node.splits)

lemma rerun_created:
  assumes step: "entry_step env f t = (Created (msg f), t1)"
    and ext: "ext t1 u"
  shows "entry_step env f u = (report f (already_exists env (dest f)), u)"
proof (cases "fs_ensureDir env (dirname (dest f)) t")
  case (Inl e)
  with step have "report f e = Created (msg f)" by (simp add: entry_step_def)
  then show ?thesis by (simp add: report_def split: if_splits)
next
  case (Inr ta)
  then have nf: "faults env (EnsureDir (dirname (dest f))) = None"
    and mk: "mkdirp t [] (dirname (dest f)) = Inr ta"
    by (auto simp: fs_ensureDir_def split: option.splits)
  from mkdirp_ready [OF mk] have ra: "ready ta (dirname (dest f))" .
  note cr = copy_ready [OF ra, where env = env and s = "src f"]
  show ?thesis
  proof (cases "fs_copy env (src f) (dest f) \<lparr>overwrite = False, errorOnExist = True\<rparr> ta")
    case (Inl e)
    with step \<open>fs_ensureDir env (dirname (dest f)) t = Inr ta\<close>
    have "report f e = Created (msg f)" by (simp add: entry_step_def)
    then show ?thesis by (simp add: report_def split: if_splits)
  next
    case (Inr t2)
    with step \<open>fs_ensureDir env (dirname (dest f)) t = Inr ta\<close>
    have t1: "t1 = t2" by (simp add: entry_step_def)
    from Inr cr obtain body where
      cf: "faults env (Copy (src f) (dest f)) = None" and tp: "templates env (src f) = Some body"
      and t2: "t2 = put ta (dest f) (File body)" and fresh: "node_at ta (dest f) = None"
      by (auto split: option.splits node.splits)
    have "ext ta t2" using fresh by (auto simp: ext_def t2 node_at_put)
    with ext t1 have eu: "ext ta u" by (auto intro: ext_trans)
    from ready_ext [OF ra eu] have ru: "ready u (dirname (dest f))" .
    from ext t1 t2 have "node_at u (dest f) = Some (File body)" by (simp add: ext_def node_at_put)
    with cf tp have "fs_copy env (src f) (dest f) \<lparr>overwrite = False, errorOnExist = True\<rparr> u =
        Inl (already_exists env (dest f))"
      by (simp add: copy_ready [OF ru])
    with ensure_idle [OF nf ru] show ?thesis
      by (simp add: entry_step_def)
  qed
qed

lemma rerun_created_entries:
  assumes "ext (snd (run_entries env fs t)) u" and "i < length fs"
    and "fst (run_entries env fs t) ! i = Created (msg (fs ! i))"
  shows "fst (run_entries env fs u) ! i = report (fs ! i) (already_exists env (dest (fs ! i)))"
  using assms
proof (induction fs arbitrary: t u i)
  case Nil
  then show ?case by simp
next
  case (Cons f fs)
  obtain e1 ta where s1: "entry_step env f t = (e1, ta)" by (cases "entry_step env f t")
  obtain e2 ub where s2: "entry_step env f u = (e2, ub)" by (cases "entry_step env f u")
  have r1: "run_entries env (f # fs) t =
      (e1 # fst (run_entries env fs ta), snd (run_entries env fs ta))"
    by (simp add: s1 case_prod_beta)
  have r2: "run_entries env (f # fs) u =
      (e2 # fst (run_entries env fs ub), snd (run_entries env fs ub))"
    by (simp add: s2 case_prod_beta)
  from Cons.prems(1) r1 have eu: "ext (snd (run_entries env fs ta)) u" by simp
  show ?case
  proof (cases i)
    case 0
    with Cons.prems(3) r1 have "e1 = Created (msg f)" by simp
    with s1 have "entry_step env f t = (Created (msg f), ta)" by simp
    moreover have "ext ta u" using run_entries_ext [of ta env fs] eu by (rule ext_trans)
    ultimately have "entry_step env f u = (report f (already_exists env (dest f)), u)"
      by (rule rerun_created)
    with s2 0 r2 show ?thesis by simp
  next
    case (Suc j)
    from entry_step_ext [of u env f] s2 have "ext u ub" by simp
    with eu have e: "ext (snd (run_entries env fs ta)) ub" by (rule ext_trans)
    from Cons.prems(2) Suc have j: "j < length fs" by simp
    from Cons.prems(3) Suc r1 have p: "fst (run_entries env fs ta) ! j = Created (msg (fs ! j))" by simp
    from Cons.IH [OF e j p] Suc r2 show ?thesis by simp
  qed
qed

lemma copy_files_entries:
  "copy_files env w =
     (Inr (), w\<lparr>tree := snd (run_entries env filesToCopy (tree w)),
               console := console w @ fst (run_entries env filesToCopy (tree w))\<rparr>)"
  by (simp add: copy_files_def copy_loop_entries)

text \<open>
  Claim C2. Run the copy loop twice in a row. An entry that the first run created is
  found in place by the second: \<open>ensureDir\<close> has nothing to do and \<open>copy\<close> raises the
  library's error for an existing destination. The handler takes an error for a skip
  only when its code is \<open>EEXIST\<close>; the library raises a plain \<open>Error\<close>, which carries no
  code, and then the second run logs the entry as a failure, with the library's message,
  where the claim expects a skip. The second run changes no node that is there after the
  first: every file keeps its contents.
\<close>

theorem second_run_reports_created_files_as_failures:
  assumes "i < length filesToCopy"
    and "drop (length (console w)) (console (snd (copy_files env w))) ! i =
           Created (msg (filesToCopy ! i))"
    and "code (already_exists env (dest (filesToCopy ! i))) \<noteq> Some ''EEXIST''"
  shows "drop (length (console (snd (copy_files env w))))
              (console (snd (copy_files env (snd (copy_files env w))))) ! i =
           CopyFailed (src (filesToCopy ! i)) (message (already_exists env (dest (filesToCopy ! i)))) \<and>
         (\<forall>q n. node_at (tree (snd (copy_files env w))) q = Some n \<longrightarrow>
                 node_at (tree (snd (copy_files env (snd (copy_files env w))))) q = Some n)"
proof (intro conjI impI allI)
  define t1 where "t1 = snd (run_entries env filesToCopy (tree w))"
  from assms(2) have p: "fst (run_entries env filesToCopy (tree w)) ! i = Created (msg (filesToCopy ! i))"
    by (simp add: copy_files_entries)
  have "ext (snd (run_entries env filesToCopy (tree w))) t1" by (simp add: t1_def ext_refl)
  from rerun_created_entries [OF this assms(1) p] assms(3)
  have "fst (run_entries env filesToCopy t1) ! i =
      CopyFailed (src (filesToCopy ! i)) (message (already_exists env (dest (filesToCopy ! i))))"
    by (simp add: report_def)
  then show "drop (length (console (snd (copy_files env w))))
                 (console (snd (copy_files env (snd (copy_files env w))))) ! i =
              CopyFailed (src (filesToCopy ! i)) (message (already_exists env (dest (filesToCopy ! i))))"
    by (simp add: copy_files_entries t1_def)
next
  fix q n
  assume "node_at (tree (snd (copy_files env w))) q = Some n"
  with copy_files_keeps [of q n env]
  show "node_at (tree (snd (copy_files env (snd (copy_files env w))))) q = Some n"
    by (simp add: stable_def)
qed

theorem second_run_reports_created_files_as_failures_witness:
  "console (snd (copy_files (quiet_env (JsError None ''already exists'')) empty_world)) =
     [Created ''Created API route at app/api/keep-alive/route.ts'',
      Created ''Created utils at app/api/keep-alive/keepAliveUtils.ts'',
      Created ''Created config at config/keep-alive-config.ts'',
      Created ''Created SQL script at keep-alive.sql'',
      Created ''Created vercel.json at vercel.json''] \<and>
   drop 5 (console (snd (copy_files (quiet_env (JsError None ''already exists''))
      (snd (copy_files (quiet_env (JsError None ''already exists'')) empty_world))))) ! 0 =
     CopyFailed ''route.ts'' ''already exists'' \<and>
   drop 5 (console (snd (copy_files (quiet_env (JsError None ''already exists''))
      (snd (copy_files (quiet_env (JsError None ''already exists'')) empty_world))))) =
     [CopyFailed ''route.ts'' ''already exists'', CopyFailed ''keepAliveUtils.ts'' ''already exists'',
      CopyFailed ''keep-alive-config.ts'' ''already exists'', CopyFailed ''keep-alive.sql'' ''already exists'',
      CopyFailed ''vercel.json'' ''already exists''] \<and>
   tree (snd (copy_files (quiet_env (JsError None ''already exists''))
      (snd (copy_files (quiet_env (JsError None ''already exists'')) empty_world)))) =
   tree (snd (copy_files (quiet_env (JsError None ''already exists'')) empty_world))"
proof -
  have a: "console (snd (copy_files (quiet_env (JsError None ''already exists'')) empty_world)) =
     [Created ''Created API route at app/api/keep-alive/route.ts'',
      Created ''Created utils at app/api/keep-alive/keepAliveUtils.ts'',
      Created ''Created config at config/keep-alive-config.ts'',
      Created ''Created SQL script at keep-alive.sql'',
      Created ''Created vercel.json at vercel.json'']"
    by code_simp
  have b: "drop 5 (console (snd (copy_files (quiet_env (JsError None ''already exists''))
      (snd (copy_files (quiet_env (JsError None ''already exists'')) empty_world))))) =
     [CopyFailed ''route.ts'' ''already exists'', CopyFailed ''keepAliveUtils.ts'' ''already exists'',
      CopyFailed ''keep-alive-config.ts'' ''already exists'', CopyFailed ''keep-alive.sql'' ''already exists'',
      CopyFailed ''vercel.json'' ''already exists'']"
    by code_simp
  have c: "tree (snd (copy_files (quiet_env (JsError None ''already exists''))
      (snd (copy_files (quiet_env (JsError None ''already exists'')) empty_world)))) =
   tree (snd (copy_files (quiet_env (JsError None ''already exists'')) empty_world))"
    by code_simp
  have i: "0 < length filesToCopy" by (simp add: filesToCopy_def)
  have d: "drop (length (console empty_world))
             (console (snd (copy_files (quiet_env (JsError None ''already exists'')) empty_world))) ! 0 =
           Created (msg (filesToCopy ! 0))"
    by (simp add: a) (simp add: empty_world_def filesToCopy_def)
  have e: "code (already_exists (quiet_env (JsError None ''already exists'')) (dest (filesToCopy ! 0))) \<noteq>
           Some ''EEXIST''"
    by (simp add: quiet_env_def)
  have f: "message (already_exists (quiet_env (JsError None ''already exists'')) (dest (filesToCopy ! 0))) =
           ''already exists''"
    by (simp add: quiet_env_def)
  have g: "src (filesToCopy ! 0) = ''route.ts''" by (simp add: filesToCopy_def)
  have l: "length (console (snd (copy_files (quiet_env (JsError None ''already exists'')) empty_world))) = 5"
    by (simp add: a)
  from second_run_reports_created_files_as_failures [OF i d e]
  have "drop 5 (console (snd (copy_files (quiet_env (JsError None ''already exists''))
      (snd (copy_files (quiet_env (JsError None ''already exists'')) empty_world))))) ! 0 =
     CopyFailed ''route.ts'' ''already exists''"
    by (simp add: l f g)
  with a b c show ?thesis by simp
qed

end
